(* ===== verification/Prelude.thy ===== *)
theory Prelude
  imports Complex_Main "HOL-Library.Word" "HOL-Library.Multiset" "HOL-Library.Product_Lexorder"
begin

text \<open>
  Shared vocabulary of the development: bytes and byte slices, the Go values the program
  computes with (errors, slices that panic out of range, decimal formatting), and the lemmas on
  lists, slices and index tables that the component theories use.  The collections
  \<open>go_defs\<close> (definitions to unfold) and \<open>slice_simps\<close> (slice rewriting) are filled
  here and by the components.
\<close>

named_theorems go_defs
named_theorems slice_simps

type_synonym byte = "8 word"
type_synonym bytes = "byte list"

text \<open>A Go string literal as the bytes it denotes (ASCII literals only).\<close>

definition str :: "string \<Rightarrow> bytes" where
  "str s = map of_char s"

text \<open>
  Go errors.  \<open>GoErr\<close> carries a format and its arguments, \<open>WrapErr\<close> is \<open>fmt.Errorf\<close>
  with \<open>%w\<close>, \<open>JoinErr\<close> the value of \<open>errors.Join\<close>, \<open>Sentinel\<close> a package-level error
  compared by identity, and \<open>GoPanic\<close> a run-time panic (an out-of-range slice).
\<close>

datatype go_error =
    GoErr string "string list"
  | WrapErr string go_error
  | JoinErr "go_error list"
  | Sentinel string
  | GoPanic string

fun errors_Is :: "go_error \<Rightarrow> go_error \<Rightarrow> bool" where
  "errors_Is (WrapErr m e) t = (WrapErr m e = t \<or> errors_Is e t)"
| "errors_Is (JoinErr es) t = (JoinErr es = t \<or> list_ex (\<lambda>e. errors_Is e t) es)"
| "errors_Is e t = (e = t)"

text \<open>\<open>errors.Join\<close> drops nil errors and is nil when nothing is left.\<close>

definition errors_Join :: "go_error option list \<Rightarrow> go_error option" where
  "errors_Join es =
     (case List.map_filter id es of [] \<Rightarrow> None | e # es' \<Rightarrow> Some (JoinErr (e # es')))"

text \<open>Decimal formatting of a non-negative integer (\<open>strconv.Itoa\<close>, \<open>%d\<close>).\<close>

definition digit_char :: "nat \<Rightarrow> char" where
  "digit_char d = char_of (48 + d)"

fun itoa :: "nat \<Rightarrow> string" where
  "itoa n = (if n < 10 then [digit_char n] else itoa (n div 10) @ [digit_char (n mod 10)])"

declare itoa.simps [simp del]

text \<open>Two's-complement wrap-around of the 64-bit signed integer type.\<close>

definition wrap64 :: "int \<Rightarrow> int" where
  "wrap64 i = (i + 2 ^ 63) mod 2 ^ 64 - 2 ^ 63"

text \<open>
  The Go slice expression \<open>xs[a:b]\<close> for in-range bounds, and the checked form that is
  \<open>None\<close> where Go panics.
\<close>

definition slice :: "nat \<Rightarrow> nat \<Rightarrow> 'a list \<Rightarrow> 'a list" where
  "slice a b xs = take (b - a) (drop a xs)"

definition go_slice :: "int \<Rightarrow> int \<Rightarrow> 'a list \<Rightarrow> 'a list option" where
  "go_slice a b xs =
     (if 0 \<le> a \<and> a \<le> b \<and> b \<le> int (length xs) then Some (slice (nat a) (nat b) xs) else None)"

subsection \<open>Errors\<close>

lemma errors_Join_None_iff [simp]:
  "errors_Join es = None \<longleftrightarrow> (\<forall>e\<in>set es. e = None)"
  by (induction es)
    (auto simp: errors_Join_def map_filter_def split: list.splits option.splits)

lemma errors_Join_Is:
  assumes "errors_Join es = Some j" and "Some e \<in> set es"
  shows "errors_Is j e"
proof -
  obtain e' es' where eq: "List.map_filter id es = e' # es'" and j: "j = JoinErr (e' # es')"
    using assms(1) by (auto simp: errors_Join_def split: list.splits)
  have "e \<in> set (List.map_filter id es)"
    using assms(2) by (force simp: map_filter_def)
  moreover have "errors_Is e e"
    by (cases e) auto
  ultimately have "list_ex (\<lambda>x. errors_Is x e) (e' # es')"
    unfolding eq list_ex_iff by blast
  then show ?thesis
    by (simp add: j)
qed

subsection \<open>Slices\<close>

lemma length_slice [simp]: "b \<le> length xs \<Longrightarrow> length (slice a b xs) = b - a"
  by (simp add: slice_def)

lemma nth_slice [simp]: "a + i < b \<Longrightarrow> b \<le> length xs \<Longrightarrow> slice a b xs ! i = xs ! (a + i)"
  by (simp add: slice_def)

lemma slice_full [simp]: "slice 0 (length xs) xs = xs"
  by (simp add: slice_def)

lemma slice_empty [simp]: "b \<le> a \<Longrightarrow> slice a b xs = []"
  by (simp add: slice_def)

lemma slice_append_drop [slice_simps]: "a \<le> b \<Longrightarrow> slice a b xs @ drop b xs = drop a xs"
  by (metis append_take_drop_id drop_drop le_add_diff_inverse2 slice_def)

lemma slice_slice_append [slice_simps]:
  "a \<le> b \<Longrightarrow> b \<le> c \<Longrightarrow> slice a b xs @ slice b c xs = slice a c xs"
  using take_add [of "b - a" "c - b" "drop a xs"] by (simp add: slice_def)

lemma slice_conv_nth [slice_simps]:
  "b \<le> length xs \<Longrightarrow> slice a b xs = map ((!) xs) [a..<b]"
  by (auto intro: nth_equalityI)

lemma drop_conv_nth [slice_simps]: "drop a xs = map ((!) xs) [a..<length xs]"
  by (auto intro: nth_equalityI)

lemma upt_split: "a \<le> b \<Longrightarrow> b \<le> c \<Longrightarrow> [a..<c] = [a..<b] @ [b..<c]"
  using upt_add_eq_append [of a b "c - b"] by simp

lemma concat_map_singleton [simp]: "concat (map (\<lambda>x. [f x]) xs) = map f xs"
  by (induction xs) auto

lemma concat_map_singletonI:
  "(\<And>x. x \<in> set xs \<Longrightarrow> f x = [g x]) \<Longrightarrow> concat (map f xs) = map g xs"
  by (induction xs) auto

lemma concat_map_Nil [simp]: "concat (map (\<lambda>x. []) xs) = []"
  by (induction xs) auto

subsection \<open>Machine integers\<close>

lemma wrap64_id [simp]: "- (2 ^ 63) \<le> i \<Longrightarrow> i < 2 ^ 63 \<Longrightarrow> wrap64 i = i"
  by (simp add: wrap64_def)

lemma wrap64_bounds: "- (2 ^ 63) \<le> wrap64 i" "wrap64 i < 2 ^ 63"
  by (simp_all add: wrap64_def)

subsection \<open>Bytes\<close>

lemma length_str [simp]: "length (str s) = length s"
  by (simp add: str_def)

lemma uint_byte_bounds: "0 \<le> uint (b :: byte)" "uint (b :: byte) < 256"
  using uint_bounded [of b] by simp_all

end
