(* ===== verification/Api.thy ===== *)
theory Api
  imports Prelude
begin

text \<open>
  The public data model and the two plugin interfaces of \<open>src/pkg/api\<close>: severities,
  findings with byte offsets, exchange hints, and the \<open>Scanner\<close> and \<open>Redactor\<close>
  interfaces as records of operations.  The locale \<open>redactor_contract\<close> states what the
  pipeline and the stream processor rely on when they call a redactor.
\<close>

subsection \<open>Severity and direction\<close>

type_synonym severity = "8 word"

definition SeverityInfo :: severity where "SeverityInfo = 0"
definition SeverityLow :: severity where "SeverityLow = 1"
definition SeverityMedium :: severity where "SeverityMedium = 2"
definition SeverityHigh :: severity where "SeverityHigh = 3"
definition SeverityCritical :: severity where "SeverityCritical = 4"

lemmas severity_defs [go_defs] =
  SeverityInfo_def SeverityLow_def SeverityMedium_def SeverityHigh_def SeverityCritical_def

definition Severity_String :: "severity \<Rightarrow> string" where
  "Severity_String s =
     (if s = SeverityInfo then ''info''
      else if s = SeverityLow then ''low''
      else if s = SeverityMedium then ''medium''
      else if s = SeverityHigh then ''high''
      else if s = SeverityCritical then ''critical''
      else ''severity('' @ itoa (unat s) @ '')'')"

definition ParseSeverity :: "string \<Rightarrow> go_error + severity" where
  "ParseSeverity s =
     (if s = ''info'' then Inr SeverityInfo
      else if s = ''low'' then Inr SeverityLow
      else if s = ''medium'' then Inr SeverityMedium
      else if s = ''high'' then Inr SeverityHigh
      else if s = ''critical'' then Inr SeverityCritical
      else Inl (GoErr ''unknown severity %q'' [s]))"

type_synonym direction = "8 word"

definition DirectionRequest :: direction where "DirectionRequest = 0"
definition DirectionResponse :: direction where "DirectionResponse = 1"

definition Direction_String :: "direction \<Rightarrow> string" where
  "Direction_String d =
     (if d = DirectionRequest then ''request''
      else if d = DirectionResponse then ''response''
      else ''unknown'')"

subsection \<open>Findings and hints\<close>

text \<open>
  A metadata value is a Go \<open>any\<close>: a string, a byte slice, or a value of another type.
  \<open>Metadata\<close> is a Go map, kept as an association list with distinct keys.  \<open>Confidence\<close> is a
  \<open>float32\<close> that the program only copies.  Offsets are Go \<open>int\<close>s, which may be negative.
\<close>

datatype any_value = AnyString string | AnyBytes bytes | AnyOther

record finding =
  fType :: string
  fSeverity :: severity
  fStart :: int
  fEnd :: int
  fConfidence :: rat
  fScanner :: string
  fMetadata :: "(string \<times> any_value) list"

definition Finding_Len :: "finding \<Rightarrow> int" where
  "Finding_Len f = fEnd f - fStart f"

record hints =
  hContentType :: string
  hURL :: string
  hMethod :: string
  hDirection :: direction

text \<open>
  The offsets contract of a finding in a buffer of \<open>n\<close> bytes: what the comment on
  \<open>Finding\<close> asks of every scanner.
\<close>

definition in_range :: "nat \<Rightarrow> finding \<Rightarrow> bool" where
  "in_range n f \<longleftrightarrow> 0 \<le> fStart f \<and> fStart f < fEnd f \<and> fEnd f \<le> int n"

definition overlaps :: "finding \<Rightarrow> finding \<Rightarrow> bool" where
  "overlaps e f \<longleftrightarrow> fStart e < fEnd f \<and> fStart f < fEnd e"

subsection \<open>The two interfaces\<close>

text \<open>
  \<open>scAccepts\<close> is \<open>None\<close> for a scanner without the optional \<open>AcceptsTransforms\<close> method.
  A call of \<open>Scan\<close> returns its findings together with an error, which may both be present.
\<close>

record scanner =
  scName :: string
  scAccepts :: "bool option"
  scScan :: "bytes \<Rightarrow> hints \<Rightarrow> finding list \<times> go_error option"

record redactor =
  rdName :: string
  rdRedact :: "bytes \<Rightarrow> finding list \<Rightarrow> go_error + bytes"

text \<open>
  Byte \<open>i\<close> of an \<open>n\<close>-byte body is covered when some finding with valid offsets contains it;
  it is inside a finding when one contains both it and the byte before it.
\<close>

definition covered :: "nat \<Rightarrow> finding list \<Rightarrow> nat \<Rightarrow> bool" where
  "covered n fs i \<longleftrightarrow> list_ex (\<lambda>f. in_range n f \<and> fStart f \<le> int i \<and> int i < fEnd f) fs"

definition inside :: "nat \<Rightarrow> finding list \<Rightarrow> nat \<Rightarrow> bool" where
  "inside n fs i \<longleftrightarrow> list_ex (\<lambda>f. in_range n f \<and> fStart f < int i \<and> int i < fEnd f) fs"

lemma covered_iff:
  "covered n fs i \<longleftrightarrow> (\<exists>f\<in>set fs. in_range n f \<and> fStart f \<le> int i \<and> int i < fEnd f)"
  by (simp add: covered_def list_ex_iff)

lemma inside_iff:
  "inside n fs i \<longleftrightarrow> (\<exists>f\<in>set fs. in_range n f \<and> fStart f < int i \<and> int i < fEnd f)"
  by (simp add: inside_def list_ex_iff)

lemma inside_covered: "inside n fs i \<Longrightarrow> covered n fs i"
  by (force simp: inside_iff covered_iff)

lemma covered_cong_set: "set fs = set gs \<Longrightarrow> covered n fs = covered n gs"
  by (rule ext) (simp add: covered_iff)

lemma inside_cong_set: "set fs = set gs \<Longrightarrow> inside n fs = inside n gs"
  by (rule ext) (simp add: inside_iff)

text \<open>
  What a client may rely on: the call succeeds, a body without findings is unchanged, and the
  output is a function of the bytes no finding covers.
\<close>

locale redactor_contract =
  fixes redact :: "bytes \<Rightarrow> finding list \<Rightarrow> go_error + bytes"
  assumes redact_total: "\<exists>out. redact data fs = Inr out"
    and redact_nothing: "(\<And>i. i < length data \<Longrightarrow> \<not> covered (length data) fs i) \<Longrightarrow>
      redact data fs = Inr data"
    and redact_hides: "length data = length data' \<Longrightarrow>
      (\<And>i. i < length data \<Longrightarrow> \<not> covered (length data) fs i \<Longrightarrow> data ! i = data' ! i) \<Longrightarrow>
      redact data fs = redact data' fs"
begin

lemma redact_no_findings: "redact data [] = Inr data"
  by (rule redact_nothing) (simp add: covered_def)

lemma redact_not_error: "redact data fs \<noteq> Inl e"
  using redact_total [of data fs] by auto

end

subsection \<open>Round trip of the severity names\<close>

lemma ParseSeverity_String:
  "s \<le> SeverityCritical \<Longrightarrow> ParseSeverity (Severity_String s) = Inr s"
proof -
  assume "s \<le> SeverityCritical"
  then have "s = 0 \<or> s = 1 \<or> s = 2 \<or> s = 3 \<or> s = 4"
    unfolding SeverityCritical_def by unat_arith
  then show ?thesis
    by (auto simp: ParseSeverity_def Severity_String_def severity_defs)
qed

lemma Severity_String_Parse:
  "ParseSeverity n = Inr s \<Longrightarrow> Severity_String s = n"
  by (auto simp: ParseSeverity_def Severity_String_def severity_defs split: if_splits)

end
