(* ===== verification/Mask.thy ===== *)
theory Mask
  imports Api
begin

text \<open>
  The default redactor, \<open>src/internal/redactor/mask/mask.go\<close>: drop findings with invalid
  offsets, sort, coalesce overlapping ranges and rewrite each coalesced range to one placeholder.
  The reference \<open>mask_spec\<close> decides the output byte by byte from the findings as a set;
  \<open>mask_Redact_eq_spec\<close> shows that the code computes it, for every list of findings, and never
  reaches an out-of-range slice.
\<close>

subsection \<open>The code\<close>

definition mask_Name :: string where
  "mask_Name = ''mask''"

definition DefaultPlaceholder :: string where
  "DefaultPlaceholder = ''[REDACTED]''"

record mask_redactor =
  placeholder :: bytes

definition mask_New :: "string \<Rightarrow> mask_redactor" where
  "mask_New ph = \<lparr>placeholder = str (if ph = '''' then DefaultPlaceholder else ph)\<rparr>"

definition mask_valid :: "bytes \<Rightarrow> finding list \<Rightarrow> finding list" where
  "mask_valid data fs =
     filter (\<lambda>f. \<not> (fStart f < 0 \<or> fEnd f > int (length data) \<or> fStart f \<ge> fEnd f)) fs"

text \<open>The comparison given to \<open>sort.Slice\<close>: by start, the longer range first.\<close>

definition mask_less :: "finding \<Rightarrow> finding \<Rightarrow> bool" where
  "mask_less f g =
     (if fStart f \<noteq> fStart g then fStart f < fStart g else fEnd f > fEnd g)"

definition mask_sort :: "finding list \<Rightarrow> finding list" where
  "mask_sort fs = sort_key (\<lambda>f. (fStart f, - fEnd f)) fs"

definition mask_merge_step :: "(int \<times> int) list \<Rightarrow> finding \<Rightarrow> (int \<times> int) list" where
  "mask_merge_step merged f =
     (if merged \<noteq> [] \<and> fStart f < snd (last merged)
      then if fEnd f > snd (last merged)
           then butlast merged @ [(fst (last merged), fEnd f)]
           else merged
      else merged @ [(fStart f, fEnd f)])"

definition mask_merge :: "finding list \<Rightarrow> (int \<times> int) list" where
  "mask_merge fs = foldl mask_merge_step [] fs"

fun mask_emit :: "bytes \<Rightarrow> bytes \<Rightarrow> int \<Rightarrow> (int \<times> int) list \<Rightarrow> bytes option" where
  "mask_emit ph data pos [] = go_slice pos (int (length data)) data"
| "mask_emit ph data pos ((a, b) # ms) =
     (case go_slice pos a data of
        None \<Rightarrow> None
      | Some gap \<Rightarrow>
          (case mask_emit ph data b ms of
             None \<Rightarrow> None
           | Some rest \<Rightarrow> Some (gap @ ph @ rest)))"

text \<open>Everything after the sort, for whichever sorted list \<open>sort.Slice\<close> leaves.\<close>

definition mask_rewrite :: "mask_redactor \<Rightarrow> bytes \<Rightarrow> finding list \<Rightarrow> go_error + bytes" where
  "mask_rewrite r data sorted_valid =
     (case mask_emit (placeholder r) data 0 (mask_merge sorted_valid) of
        None \<Rightarrow> Inl (GoPanic ''slice bounds out of range'')
      | Some out \<Rightarrow> Inr out)"

definition mask_Redact :: "mask_redactor \<Rightarrow> bytes \<Rightarrow> finding list \<Rightarrow> go_error + bytes" where
  "mask_Redact r data fs =
     (if fs = [] \<or> data = [] then Inr data
      else let valid = mask_valid data fs in
           if valid = [] then Inr data
           else mask_rewrite r data (mask_sort valid))"

definition mask_api :: "mask_redactor \<Rightarrow> redactor" where
  "mask_api r = \<lparr>rdName = mask_Name, rdRedact = mask_Redact r\<rparr>"

subsection \<open>The reference\<close>

text \<open>
  A byte outside every valid finding is kept.  A covered byte disappears; a placeholder stands
  where a group of overlapping findings begins, that is at a covered byte no finding is strictly
  inside of.
\<close>

definition mask_byte :: "bytes \<Rightarrow> bytes \<Rightarrow> finding list \<Rightarrow> nat \<Rightarrow> bytes" where
  "mask_byte ph data fs i =
     (if \<not> covered (length data) fs i then [data ! i]
      else if \<not> inside (length data) fs i then ph
      else [])"

definition mask_spec :: "bytes \<Rightarrow> bytes \<Rightarrow> finding list \<Rightarrow> bytes" where
  "mask_spec ph data fs = concat (map (mask_byte ph data fs) [0..<length data])"

subsection \<open>The merge loop\<close>

text \<open>Intervals in order, non-empty and disjoint, from position \<open>lo\<close> to position \<open>n\<close>.\<close>

fun separated :: "int \<Rightarrow> int \<Rightarrow> (int \<times> int) list \<Rightarrow> bool" where
  "separated lo n [] = (lo \<le> n)"
| "separated lo n ((a, b) # ms) = (lo \<le> a \<and> a < b \<and> separated b n ms)"

definition in_ivs :: "(int \<times> int) list \<Rightarrow> int \<Rightarrow> bool" where
  "in_ivs ms i \<longleftrightarrow> (\<exists>(a, b)\<in>set ms. a \<le> i \<and> i < b)"

definition inside_ivs :: "(int \<times> int) list \<Rightarrow> int \<Rightarrow> bool" where
  "inside_ivs ms i \<longleftrightarrow> (\<exists>(a, b)\<in>set ms. a < i \<and> i < b)"

lemma in_ivs_simps [simp]:
  "\<not> in_ivs [] i"
  "in_ivs ((a, b) # ms) i \<longleftrightarrow> a \<le> i \<and> i < b \<or> in_ivs ms i"
  "in_ivs (ms @ ms') i \<longleftrightarrow> in_ivs ms i \<or> in_ivs ms' i"
  by (auto simp: in_ivs_def)

lemma inside_ivs_simps [simp]:
  "\<not> inside_ivs [] i"
  "inside_ivs ((a, b) # ms) i \<longleftrightarrow> a < i \<and> i < b \<or> inside_ivs ms i"
  "inside_ivs (ms @ ms') i \<longleftrightarrow> inside_ivs ms i \<or> inside_ivs ms' i"
  by (auto simp: inside_ivs_def)

lemma separated_mono: "separated lo n ms \<Longrightarrow> n \<le> n' \<Longrightarrow> separated lo n' ms"
  by (induction lo n ms rule: separated.induct) auto

lemma separated_le: "separated lo n ms \<Longrightarrow> lo \<le> n"
  by (induction lo n ms rule: separated.induct) auto

lemma separated_snoc [simp]:
  "separated lo n (ms @ [(a, b)]) \<longleftrightarrow> separated lo a ms \<and> a < b \<and> b \<le> n"
  by (induction lo n ms rule: separated.induct) auto

lemma separated_below: "separated lo n ms \<Longrightarrow> i < lo \<Longrightarrow> \<not> in_ivs ms i \<and> \<not> inside_ivs ms i"
  by (induction lo n ms rule: separated.induct) (force dest: separated_le)+

text \<open>
  The loop invariant after the findings \<open>fs\<close>, all starting at or before the next one: the
  intervals are separated, cover what the findings cover, and have the same interior.
\<close>

definition merge_inv :: "finding list \<Rightarrow> int \<Rightarrow> (int \<times> int) list \<Rightarrow> bool" where
  "merge_inv fs n ms \<longleftrightarrow>
     separated 0 n ms \<and>
     (\<forall>(a, b)\<in>set ms. \<exists>f\<in>set fs. a \<le> fStart f \<and> (\<exists>g\<in>set fs. a = fStart g)) \<and>
     (\<forall>i. in_ivs ms i \<longleftrightarrow> (\<exists>f\<in>set fs. fStart f \<le> i \<and> i < fEnd f)) \<and>
     (\<forall>i. inside_ivs ms i \<longleftrightarrow> (\<exists>f\<in>set fs. fStart f < i \<and> i < fEnd f))"

lemma merge_inv_step:
  assumes inv: "merge_inv fs n ms" and rng: "0 \<le> fStart f" "fStart f < fEnd f" "fEnd f \<le> n"
    and le: "\<And>g. g \<in> set fs \<Longrightarrow> fStart g \<le> fStart f"
  shows "merge_inv (fs @ [f]) n (mask_merge_step ms f)"
proof (cases "ms \<noteq> [] \<and> fStart f < snd (last ms)")
  case False
  have sep: "separated 0 (fStart f) ms"
  proof (cases ms rule: rev_cases)
    case Nil
    then show ?thesis using rng by simp
  next
    case (snoc ms' ab)
    then show ?thesis using False inv by (cases ab) (auto simp: merge_inv_def)
  qed
  show ?thesis
    using False inv rng sep by (auto simp: merge_inv_def mask_merge_step_def)
next
  case True
  then obtain ms' a b where ms: "ms = ms' @ [(a, b)]"
    by (cases ms rule: rev_cases) auto
  have lt: "fStart f < b" and sep: "separated 0 a ms'" "a < b" "b \<le> n"
    using True inv by (auto simp: ms merge_inv_def)
  have "a \<le> fStart f"
    using inv le by (force simp: merge_inv_def ms)
  have cov: "in_ivs ms i \<longleftrightarrow> (\<exists>f\<in>set fs. fStart f \<le> i \<and> i < fEnd f)"
    and ins: "inside_ivs ms i \<longleftrightarrow> (\<exists>f\<in>set fs. fStart f < i \<and> i < fEnd f)" for i
    using inv by (auto simp: merge_inv_def)
  have org: "\<forall>(a, b)\<in>set ms. \<exists>f\<in>set fs. a \<le> fStart f \<and> (\<exists>g\<in>set fs. a = fStart g)"
    using inv by (simp add: merge_inv_def)
  have cov': "in_ivs (mask_merge_step ms f) i \<longleftrightarrow>
      in_ivs ms i \<or> fStart f \<le> i \<and> i < fEnd f" for i
    using True lt \<open>a \<le> fStart f\<close> by (auto simp: mask_merge_step_def ms)
  have ins': "inside_ivs (mask_merge_step ms f) i \<longleftrightarrow>
      inside_ivs ms i \<or> fStart f < i \<and> i < fEnd f" for i
    using True lt \<open>a \<le> fStart f\<close> by (auto simp: mask_merge_step_def ms)
  have sep': "separated 0 n (mask_merge_step ms f)"
    using True sep rng by (auto simp: mask_merge_step_def ms)
  have org': "\<forall>(a, b)\<in>set (mask_merge_step ms f).
      \<exists>f\<in>set (fs @ [f]). a \<le> fStart f \<and> (\<exists>g\<in>set (fs @ [f]). a = fStart g)"
    using org True by (auto simp: mask_merge_step_def ms)
  show ?thesis
    unfolding merge_inv_def using sep' org' by (auto simp: cov' ins' cov ins)
qed

lemma merge_inv_mask_merge:
  assumes "\<And>f. f \<in> set fs \<Longrightarrow> 0 \<le> fStart f \<and> fStart f < fEnd f \<and> fEnd f \<le> n"
    and "0 \<le> n" and "sorted (map fStart fs)"
  shows "merge_inv fs n (mask_merge fs)"
  using assms
proof (induction fs rule: rev_induct)
  case Nil
  then show ?case by (simp add: merge_inv_def mask_merge_def)
next
  case (snoc f fs)
  then have "merge_inv fs n (mask_merge fs)"
    by (simp add: sorted_append)
  then show ?case
    using snoc.prems by (auto simp: mask_merge_def sorted_append intro: merge_inv_step)
qed

subsection \<open>The emit loop\<close>

definition iv_byte :: "bytes \<Rightarrow> bytes \<Rightarrow> (int \<times> int) list \<Rightarrow> nat \<Rightarrow> bytes" where
  "iv_byte ph data ms i =
     (if \<not> in_ivs ms (int i) then [data ! i]
      else if \<not> inside_ivs ms (int i) then ph else [])"

lemma iv_byte_hit:
  assumes "a < b" "separated (int b) n ms"
  shows "concat (map (iv_byte ph data ((int a, int b) # ms)) [a..<b]) = ph"
proof -
  have "[a..<b] = a # [Suc a..<b]"
    using assms(1) by (simp add: upt_conv_Cons)
  moreover have "iv_byte ph data ((int a, int b) # ms) a = ph"
    using assms separated_below [of "int b" n ms "int a"] by (simp add: iv_byte_def)
  moreover have "iv_byte ph data ((int a, int b) # ms) i = []" if "i \<in> set [Suc a..<b]" for i
    using that by (simp add: iv_byte_def)
  then have "concat (map (iv_byte ph data ((int a, int b) # ms)) [Suc a..<b]) = []"
    by simp
  ultimately show ?thesis by simp
qed

lemma mask_emit_separated:
  assumes "separated (int pos) (int (length data)) ms"
  shows "mask_emit ph data (int pos) ms =
    Some (concat (map (iv_byte ph data ms) [pos..<length data]))"
  using assms
proof (induction ms arbitrary: pos)
  case Nil
  then show ?case
    by (simp add: go_slice_def iv_byte_def slice_simps)
next
  case (Cons ab ms)
  then obtain a b where ab: "ab = (int a, int b)" and le: "pos \<le> a" "a < b"
      and sep: "separated (int b) (int (length data)) ms"
    by (cases ab) (auto, metis nat_0_le nat_less_iff of_nat_0_le_iff of_nat_less_iff order.trans
        order_less_imp_le int_nat_eq nat_le_iff)
  have bn: "b \<le> length data"
    using separated_le [OF sep] by simp
  have split: "[pos..<length data] = [pos..<a] @ [a..<b] @ [b..<length data]"
    using le bn upt_split [of pos a "length data"] upt_split [of a b "length data"] by simp
  have gap: "concat (map (iv_byte ph data (ab # ms)) [pos..<a]) = slice pos a data"
  proof -
    have "iv_byte ph data (ab # ms) i = [data ! i]" if "i \<in> set [pos..<a]" for i
      using that le separated_below [OF sep, of "int i"] by (simp add: iv_byte_def ab)
    then have "concat (map (iv_byte ph data (ab # ms)) [pos..<a]) = map ((!) data) [pos..<a]"
      by (rule concat_map_singletonI)
    then show ?thesis
      using le bn by (simp add: slice_simps)
  qed
  have hit: "concat (map (iv_byte ph data (ab # ms)) [a..<b]) = ph"
    unfolding ab using le sep by (intro iv_byte_hit)
  have rest: "map (iv_byte ph data (ab # ms)) [b..<length data] =
      map (iv_byte ph data ms) [b..<length data]"
    by (rule map_cong) (auto simp: iv_byte_def ab)
  have "mask_emit ph data (int pos) (ab # ms) =
      Some (slice pos a data @ ph @ concat (map (iv_byte ph data ms) [b..<length data]))"
    using Cons.IH [OF sep] le bn by (simp add: ab go_slice_def)
  then show ?case
    by (simp add: split gap hit rest)
qed

subsection \<open>The code computes the reference\<close>

lemma mask_valid_in_range: "mask_valid data fs = filter (in_range (length data)) fs"
  by (auto simp: mask_valid_def in_range_def intro: filter_cong)

lemma mask_rewrite_spec:
  assumes set: "set gs = set (mask_valid data fs)" and sorted: "sorted (map fStart gs)"
  shows "mask_rewrite r data gs = Inr (mask_spec (placeholder r) data fs)"
proof -
  let ?n = "int (length data)" and ?ms = "mask_merge gs"
  have rng: "0 \<le> fStart f \<and> fStart f < fEnd f \<and> fEnd f \<le> ?n" if "f \<in> set gs" for f
    using that set by (auto simp: mask_valid_in_range in_range_def)
  have inv: "merge_inv gs ?n ?ms"
    using rng sorted by (intro merge_inv_mask_merge) auto
  have cov: "in_ivs ?ms (int i) = covered (length data) fs i" for i
    using inv set by (fastforce simp: merge_inv_def covered_iff mask_valid_in_range)
  have ins: "inside_ivs ?ms (int i) = inside (length data) fs i" for i
    using inv set by (fastforce simp: merge_inv_def inside_iff mask_valid_in_range)
  have "mask_emit (placeholder r) data (int 0) ?ms =
      Some (concat (map (iv_byte (placeholder r) data ?ms) [0..<length data]))"
    using inv by (intro mask_emit_separated) (simp add: merge_inv_def)
  moreover have "iv_byte (placeholder r) data ?ms = mask_byte (placeholder r) data fs"
    by (rule ext) (simp add: iv_byte_def mask_byte_def cov ins)
  ultimately show ?thesis
    by (simp add: mask_rewrite_def mask_spec_def)
qed

lemma mask_spec_uncovered:
  assumes "\<And>i. i < length data \<Longrightarrow> \<not> covered (length data) fs i"
  shows "mask_spec ph data fs = data"
proof -
  have "concat (map (mask_byte ph data fs) [0..<length data]) = map ((!) data) [0..<length data]"
    using assms by (intro concat_map_singletonI) (auto simp: mask_byte_def)
  then show ?thesis
    by (simp add: mask_spec_def map_nth)
qed

lemma mask_sort_sorted: "sorted (map fStart (mask_sort fs))"
proof -
  have "sorted (map fst (map (\<lambda>f. (fStart f, - fEnd f)) (mask_sort fs)))"
    unfolding mask_sort_def using sorted_sort_key [of "\<lambda>f. (fStart f, - fEnd f)" fs]
    by (fastforce simp: sorted_iff_nth_mono less_eq_prod_def)
  then show ?thesis
    by (simp add: comp_def)
qed

lemma mask_Redact_eq_spec: "mask_Redact r data fs = Inr (mask_spec (placeholder r) data fs)"
proof (cases "fs = [] \<or> data = [] \<or> mask_valid data fs = []")
  case True
  then have "mask_Redact r data fs = Inr data"
    by (auto simp: mask_Redact_def)
  moreover have "\<not> covered (length data) fs i" if "i < length data" for i
    using True that by (auto simp: covered_iff mask_valid_in_range filter_empty_conv)
  ultimately show ?thesis
    by (simp add: mask_spec_uncovered)
next
  case False
  then show ?thesis
    using mask_rewrite_spec [of "mask_sort (mask_valid data fs)" data fs r] mask_sort_sorted
    by (simp add: mask_Redact_def mask_sort_def)
qed

lemma mask_spec_hides:
  assumes "length data = length data'"
    and "\<And>i. i < length data \<Longrightarrow> \<not> covered (length data) fs i \<Longrightarrow> data ! i = data' ! i"
  shows "mask_spec ph data fs = mask_spec ph data' fs"
  unfolding mask_spec_def assms(1) [symmetric]
  by (intro arg_cong [where f = concat] map_cong) (use assms in \<open>auto simp: mask_byte_def\<close>)

interpretation mask_rc: redactor_contract "mask_Redact r" for r
  by unfold_locales
    (auto simp: mask_Redact_eq_spec mask_spec_uncovered intro: mask_spec_hides)


subsection \<open>Properties\<close>

text \<open>
  C2: The redactor computes the reference for every placeholder, body and list of findings,
  however the findings are ordered, overlap, repeat or are out of range; in particular the call
  never fails and never slices out of range.
\<close>

theorem mask_redact_refines:
  "mask_Redact r data fs = Inr (mask_spec (placeholder r) data fs)"
  by (rule mask_Redact_eq_spec)

text \<open>
  C8: Nothing of a covered byte reaches the output: two bodies of one length that agree outside
  the findings are redacted to the same bytes.
\<close>

theorem mask_redact_hides:
  assumes "length data = length data'"
    and "\<And>i. i < length data \<Longrightarrow> \<not> covered (length data) fs i \<Longrightarrow> data ! i = data' ! i"
  shows "mask_Redact r data fs = mask_Redact r data' fs"
  using assms by (rule mask_rc.redact_hides)

definition sample_finding :: "int \<Rightarrow> int \<Rightarrow> finding" where
  "sample_finding a b =
     \<lparr>fType = ''t'', fSeverity = SeverityHigh, fStart = a, fEnd = b, fConfidence = 1,
      fScanner = ''s'', fMetadata = []\<rparr>"

lemma mask_redact_hides_witness:
  "mask_Redact (mask_New ''*'') [1, 2, 3, 4, 5] [sample_finding 1 3, sample_finding 2 4] =
   mask_Redact (mask_New ''*'') [1, 7, 8, 9, 5] [sample_finding 1 3, sample_finding 2 4] \<and>
   mask_Redact (mask_New ''*'') [1, 2, 3, 4, 5] [sample_finding 1 3, sample_finding 2 4] =
     Inr [1, 42, 5]"
proof
  have "list_all (\<lambda>i. covered 5 [sample_finding 1 3, sample_finding 2 4] i) [1, 2, 3]"
    by code_simp
  then have "[1, 2, 3, 4, 5] ! i = [1, 7, 8, 9, 5 :: byte] ! i"
    if "\<not> covered 5 [sample_finding 1 3, sample_finding 2 4] i" "i < 5" for i
    using that by (simp add: less_Suc_eq numeral_eq_Suc) auto
  then show "mask_Redact (mask_New ''*'') [1, 2, 3, 4, 5] [sample_finding 1 3, sample_finding 2 4] =
      mask_Redact (mask_New ''*'') [1, 7, 8, 9, 5] [sample_finding 1 3, sample_finding 2 4]"
    by (intro mask_redact_hides) (simp_all add: numeral_eq_Suc)
  show "mask_Redact (mask_New ''*'') [1, 2, 3, 4, 5] [sample_finding 1 3, sample_finding 2 4] =
      Inr [1, 42, 5]"
    by code_simp
qed

text \<open>
  The result does not depend on how \<open>sort.Slice\<close>, which is not stable, orders findings with
  equal ranges: any permutation of the valid findings in non-decreasing order is rewritten to the
  same bytes.
\<close>

lemma mask_sort_order_irrelevant:
  assumes "sorted_wrt (\<lambda>f g. \<not> mask_less g f) perm" "mset perm = mset (mask_valid data fs)"
  shows "mask_rewrite r data perm = Inr (mask_spec (placeholder r) data fs)"
proof (rule mask_rewrite_spec)
  show "set perm = set (mask_valid data fs)"
    using assms(2) by (rule mset_eq_setD)
  show "sorted (map fStart perm)"
    unfolding sorted_map
    by (rule sorted_wrt_mono_rel [OF _ assms(1)]) (auto simp: mask_less_def split: if_splits)
qed

end
