(* ===== verification/Views.thy ===== *)
theory Views
  imports Prelude
begin

text \<open>
  The interface between the pipeline and the five body transforms.  A transform returns the
  rewritten bytes and, unless nothing happened, a table that sends every offset of the rewritten
  bytes (and the offset one past them) to an offset of the original.  The locale
  \<open>offset_view\<close> is the contract that keeps mapped findings within the original body;
  \<open>exact_view\<close> adds strictness, under which no finding is lost or shrunk by the mapping.
  Both are interpreted on the model of each transform.
\<close>

type_synonym transform = "bytes \<Rightarrow> bytes \<times> nat list option"

text \<open>Bytes \<open>a\<close> up to \<open>b\<close> emitted unchanged, each with its own offset.\<close>

definition verbatim :: "bytes \<Rightarrow> nat \<Rightarrow> nat \<Rightarrow> (nat \<times> byte) list" where
  "verbatim src a b = map (\<lambda>k. (k, src ! k)) [a..<b]"

text \<open>The two parallel slices \<open>out\<close> and \<open>idx\<close> from the emitted pairs and the final offset.\<close>

definition table_of :: "(nat \<times> byte) list \<Rightarrow> nat \<Rightarrow> bytes \<times> nat list" where
  "table_of ps n = (map snd ps, map fst ps @ [n])"

definition ascending :: "nat \<Rightarrow> nat \<Rightarrow> (nat \<times> byte) list \<Rightarrow> bool" where
  "ascending lo hi ps \<longleftrightarrow>
     sorted_wrt (<) (map fst ps) \<and> (\<forall>(k, c)\<in>set ps. lo \<le> k \<and> k < hi)"

locale offset_view =
  fixes transform :: transform
  assumes table_length: "transform src = (out, Some idx) \<Longrightarrow> length idx = Suc (length out)"
    and table_sorted: "transform src = (out, Some idx) \<Longrightarrow> sorted idx"
    and table_last: "transform src = (out, Some idx) \<Longrightarrow> last idx = length src"
begin

lemma table_end: "transform src = (out, Some idx) \<Longrightarrow> idx ! length out = length src"
  using table_length table_last by (metis diff_Suc_1 last_conv_nth length_0_conv nat.simps(3))

lemma mapped_range:
  assumes "transform src = (out, Some idx)" "a \<le> b" "b \<le> length out"
  shows "idx ! a \<le> idx ! b \<and> idx ! b \<le> length src"
proof -
  have "sorted idx" "length idx = Suc (length out)" "idx ! length out = length src"
    using assms(1) table_sorted table_length table_end by blast+
  then show ?thesis
    using assms(2,3) sorted_nth_mono [of idx a b] sorted_nth_mono [of idx b "length out"] by simp
qed

end

locale exact_view =
  fixes transform :: transform
  assumes exact_length: "transform src = (out, Some idx) \<Longrightarrow> length idx = Suc (length out)"
    and exact_strict: "transform src = (out, Some idx) \<Longrightarrow> sorted_wrt (<) idx"
    and exact_last: "transform src = (out, Some idx) \<Longrightarrow> last idx = length src"
begin

lemma mapped_nonempty:
  assumes "transform src = (out, Some idx)" "a < b" "b \<le> length out"
  shows "idx ! a < idx ! b"
  using assms exact_length [OF assms(1)] exact_strict [OF assms(1)]
  by (simp add: sorted_wrt_nth_less)

text \<open>Every byte of a match comes from inside the mapped range, and no byte outside it does.\<close>

lemma mapped_origin_iff:
  assumes "transform src = (out, Some idx)" "a \<le> length out" "b \<le> length out" "k < length out"
  shows "a \<le> k \<and> k < b \<longleftrightarrow> idx ! a \<le> idx ! k \<and> idx ! k < idx ! b"
proof -
  have "length idx = Suc (length out)" "sorted_wrt (<) idx"
    using assms(1) exact_length exact_strict by blast+
  then have mono: "i < j \<longleftrightarrow> idx ! i < idx ! j" if "i \<le> length out" "j \<le> length out" for i j
    using that sorted_wrt_nth_less [of "(<)" idx] by (metis le_imp_less_Suc linorder_less_linear order_less_imp_not_less)
  show ?thesis
    using mono [of k a] mono [of k b] assms(2-4) by (auto simp: not_less [symmetric])
qed

end

sublocale exact_view \<subseteq> offset_view
proof
  fix src out idx
  assume t: "transform src = (out, Some idx)"
  show "length idx = Suc (length out)" by (rule exact_length [OF t])
  show "sorted idx" by (rule strict_sorted_imp_sorted [OF exact_strict [OF t]])
  show "last idx = length src" by (rule exact_last [OF t])
qed

subsection \<open>Building tables from emitted bytes\<close>

lemma length_verbatim [simp]: "length (verbatim src a b) = b - a"
  by (simp add: verbatim_def)

lemma ascending_verbatim: "lo \<le> a \<Longrightarrow> b \<le> hi \<Longrightarrow> ascending lo hi (verbatim src a b)"
  by (auto simp: ascending_def verbatim_def comp_def)

lemma ascending_Nil [simp]: "ascending lo hi []"
  by (simp add: ascending_def)

lemma ascending_append:
  "ascending lo mid ps \<Longrightarrow> ascending mid hi qs \<Longrightarrow> lo \<le> mid \<Longrightarrow> mid \<le> hi \<Longrightarrow>
    ascending lo hi (ps @ qs)"
  unfolding ascending_def by (fastforce simp: sorted_wrt_append)

lemma ascending_filter: "ascending lo hi ps \<Longrightarrow> ascending lo hi (filter P ps)"
  by (auto simp: ascending_def sorted_wrt_filter sorted_wrt_map)

lemma ascending_mono: "ascending lo hi ps \<Longrightarrow> lo' \<le> lo \<Longrightarrow> hi \<le> hi' \<Longrightarrow> ascending lo' hi' ps"
  unfolding ascending_def by fastforce

lemma table_of_ascending:
  assumes "ascending lo n ps" and "table_of ps n = (out, idx)"
  shows "length idx = Suc (length out) \<and> sorted_wrt (<) idx \<and> last idx = n"
  using assms by (fastforce simp: ascending_def table_of_def sorted_wrt_append)

text \<open>Emitted pairs whose offsets do not decrease and lie in a range.\<close>

definition nondecreasing :: "nat \<Rightarrow> nat \<Rightarrow> (nat \<times> byte) list \<Rightarrow> bool" where
  "nondecreasing lo hi ps \<longleftrightarrow> sorted (map fst ps) \<and> (\<forall>(k, c)\<in>set ps. lo \<le> k \<and> k < hi)"

lemma nondecreasing_append:
  "nondecreasing lo mid ps \<Longrightarrow> nondecreasing mid hi qs \<Longrightarrow> lo \<le> mid \<Longrightarrow> mid \<le> hi \<Longrightarrow>
    nondecreasing lo hi (ps @ qs)"
  unfolding nondecreasing_def by (fastforce simp: sorted_append)

lemma ascending_nondecreasing: "ascending lo hi ps \<Longrightarrow> nondecreasing lo hi ps"
  by (simp add: ascending_def nondecreasing_def strict_sorted_imp_sorted)

lemma table_of_nondecreasing:
  assumes "nondecreasing lo n ps" and "table_of ps n = (out, idx)"
  shows "length idx = Suc (length out) \<and> sorted idx \<and> last idx = n"
  using assms by (fastforce simp: nondecreasing_def table_of_def sorted_append)

lemma nondecreasing_const: "lo \<le> k \<Longrightarrow> k < hi \<Longrightarrow> nondecreasing lo hi (map (Pair k) cs)"
  by (auto simp: nondecreasing_def sorted_iff_nth_mono)

text \<open>A table whose bytes all come unchanged from their offsets.\<close>

definition faithful :: "bytes \<Rightarrow> (nat \<times> byte) list \<Rightarrow> bool" where
  "faithful src ps \<longleftrightarrow> (\<forall>(k, c)\<in>set ps. c = src ! k)"

lemma faithful_simps [simp]:
  "faithful src []"
  "faithful src (ps @ qs) \<longleftrightarrow> faithful src ps \<and> faithful src qs"
  "faithful src (verbatim src a b)"
  by (auto simp: faithful_def verbatim_def)

lemma faithful_filter: "faithful src ps \<Longrightarrow> faithful src (filter P ps)"
  by (auto simp: faithful_def)

lemma table_of_faithful:
  "faithful src ps \<Longrightarrow> table_of ps n = (out, idx) \<Longrightarrow> k < length out \<Longrightarrow> out ! k = src ! (idx ! k)"
proof -
  assume f: "faithful src ps" and t: "table_of ps n = (out, idx)" and k: "k < length out"
  have "ps ! k \<in> set ps"
    using t k by (auto simp: table_of_def)
  then have "snd (ps ! k) = src ! fst (ps ! k)"
    using f by (auto simp: faithful_def)
  then show ?thesis
    using t k by (auto simp: table_of_def nth_append)
qed

end
