(* ===== verification/Decode.thy ===== *)
theory Decode
  imports Views
begin

unbundle bit_operations_syntax

text \<open>
  The URL-decoding view, \<open>src/internal/pipeline/decode.go\<close>.  The loop reads \<open>%XX\<close>
  sequences and keeps everything else; the offset table has one entry per decoded byte and a
  sentinel.  Decoding undoes percent-encoding and leaves text without \<open>%\<close> alone.
\<close>

definition containsPercent :: "bytes \<Rightarrow> bool" where
  "containsPercent data = list_ex (\<lambda>b. b = 37) data"

definition hexValue :: "byte \<Rightarrow> int option" where
  "hexValue c =
     (if 48 \<le> c \<and> c \<le> 57 then Some (uint (c - 48))
      else if 97 \<le> c \<and> c \<le> 102 then Some (uint (c - 97) + 10)
      else if 65 \<le> c \<and> c \<le> 70 then Some (uint (c - 65) + 10)
      else None)"

text \<open>The byte of a well-formed escape \<open>% h l\<close>, if \<open>h\<close> and \<open>l\<close> are hexadecimal digits.\<close>

definition escape_byte :: "byte \<Rightarrow> byte \<Rightarrow> byte option" where
  "escape_byte h l =
     (case hexValue h of
        None \<Rightarrow> None
      | Some hi \<Rightarrow> (case hexValue l of
                      None \<Rightarrow> None
                    | Some lo \<Rightarrow> Some (word_of_int (push_bit 4 hi OR lo))))"

fun urlDecode_loop :: "nat \<Rightarrow> bytes \<Rightarrow> (nat \<times> byte) list" where
  "urlDecode_loop i [] = []"
| "urlDecode_loop i [c] = [(i, c)]"
| "urlDecode_loop i [c, d] = (i, c) # urlDecode_loop (i + 1) [d]"
| "urlDecode_loop i (c # h # l # cs) =
     (if c = 37
      then case escape_byte h l of
             Some b \<Rightarrow> (i, b) # urlDecode_loop (i + 3) cs
           | None \<Rightarrow> (i, c) # urlDecode_loop (i + 1) (h # l # cs)
      else (i, c) # urlDecode_loop (i + 1) (h # l # cs))"

definition urlDecode :: transform where
  "urlDecode src =
     (case table_of (urlDecode_loop 0 src) (length src) of (out, idx) \<Rightarrow> (out, Some idx))"

subsection \<open>The offset table\<close>

lemma ascending_Cons:
  "lo \<le> i \<Longrightarrow> i < lo' \<Longrightarrow> ascending lo' hi ps \<Longrightarrow> lo' \<le> hi \<Longrightarrow> ascending lo hi ((i, c) # ps)"
  unfolding ascending_def by fastforce

lemma urlDecode_loop_ascending: "ascending i (i + length src) (urlDecode_loop i src)"
proof (induction i src rule: urlDecode_loop.induct)
  case (3 i c d)
  then show ?case by (simp add: ascending_def)
next
  case (4 i c h l cs)
  show ?case
  proof (cases "c = 37 \<and> escape_byte h l \<noteq> None")
    case True
    then obtain b where b: "escape_byte h l = Some b" by auto
    have "ascending (i + 3) (i + 3 + length cs) (urlDecode_loop (i + 3) cs)"
      using True "4.IH"(2) [OF _ b] by simp
    then show ?thesis
      using True b by (auto intro!: ascending_Cons [of _ _ "i + 3"] simp: ac_simps numeral_3_eq_3)
  next
    case False
    then have "urlDecode_loop i (c # h # l # cs) = (i, c) # urlDecode_loop (i + 1) (h # l # cs)"
      and "ascending (i + 1) (i + 1 + length (h # l # cs)) (urlDecode_loop (i + 1) (h # l # cs))"
      using "4.IH" by auto
    then show ?thesis
      by (auto intro!: ascending_Cons [of _ _ "i + 1"])
  qed
qed (auto simp: ascending_def)

interpretation url_view: exact_view urlDecode
proof
  fix src out idx
  assume "urlDecode src = (out, Some idx)"
  then have "table_of (urlDecode_loop 0 src) (length src) = (out, idx)"
    by (simp add: urlDecode_def split: prod.splits)
  then show "length idx = Suc (length out)" "sorted_wrt (<) idx" "last idx = length src"
    using table_of_ascending [OF urlDecode_loop_ascending [of 0 src, simplified]] by simp_all
qed

subsection \<open>Round trip with percent-encoding\<close>

text \<open>
  A reference encoder that ranges over every percent-encoding of a text: each byte is written as it
  is or as an escape, decided position by position, and each of the two digits of an escape is in
  upper or lower case.  Only the percent sign must be escaped.
\<close>

datatype letter_case = Upper | Lower

datatype writing = Literal | Escaped letter_case letter_case

definition hex_digit :: "letter_case \<Rightarrow> int \<Rightarrow> byte" where
  "hex_digit lc n =
     (if n < 10 then word_of_int (48 + n)
      else case lc of Upper \<Rightarrow> word_of_int (55 + n) | Lower \<Rightarrow> word_of_int (87 + n))"

fun pct_byte :: "writing \<Rightarrow> byte \<Rightarrow> bytes" where
  "pct_byte Literal b = [b]"
| "pct_byte (Escaped hi lo) b = [37, hex_digit hi (uint b div 16), hex_digit lo (uint b mod 16)]"

fun pct_encode :: "writing list \<Rightarrow> bytes \<Rightarrow> bytes" where
  "pct_encode (w # ws) (b # bs) = pct_byte w b @ pct_encode ws bs"
| "pct_encode ws bs = []"

definition pct_writing :: "writing list \<Rightarrow> bytes \<Rightarrow> bool" where
  "pct_writing ws bs \<longleftrightarrow> list_all2 (\<lambda>w b. b = 37 \<longrightarrow> w \<noteq> Literal) ws bs"

lemma pct_writing_Cons:
  "pct_writing ws (b # bs) \<longleftrightarrow>
     (\<exists>v vs. ws = v # vs \<and> (b = 37 \<longrightarrow> v \<noteq> Literal) \<and> pct_writing vs bs)"
  by (auto simp: pct_writing_def list_all2_Cons2)

lemma pct_writing_Nil [simp]: "pct_writing ws [] \<longleftrightarrow> ws = []"
  by (simp add: pct_writing_def)

lemma hexValue_hex_digit:
  assumes "0 \<le> n" "n < 16" shows "hexValue (hex_digit lc n) = Some n"
proof -
  have "n \<in> set [0..15]"
    using assms by simp
  moreover have "[0..15] = [0, 1, 2, 3, 4, 5, 6, 7, 8, 9, 10, 11, 12, 13, 14, 15 :: int]"
    by code_simp
  ultimately have "n \<in> {0, 1, 2, 3, 4, 5, 6, 7, 8, 9, 10, 11, 12, 13, 14, 15}"
    by (simp only: list.set)
  then show ?thesis
    by (elim insertE emptyE) (cases lc; simp add: hexValue_def hex_digit_def)+
qed

lemma nibbles_or:
  assumes "0 \<le> hi" "0 \<le> lo" "lo < 16"
  shows "push_bit 4 hi OR lo = hi * 16 + (lo :: int)"
proof -
  have "push_bit 4 hi AND lo = 0"
  proof (rule bit_eqI)
    fix n
    show "bit (push_bit 4 hi AND lo) n = bit (0 :: int) n"
    proof (cases "n < 4")
      case True
      then show ?thesis by (simp add: bit_and_iff bit_push_bit_iff)
    next
      case False
      have "lo = take_bit 4 lo"
        using assms by (simp add: take_bit_int_eq_self)
      then have "\<not> bit lo n"
        using False by (metis bit_take_bit_iff)
      then show ?thesis by (simp add: bit_and_iff)
    qed
  qed
  then have "push_bit 4 hi OR lo = push_bit 4 hi + lo"
    by (simp add: disjunctive_add_eq_or)
  then show ?thesis
    by (simp add: push_bit_eq_mult)
qed

lemma escape_byte_hex:
  "escape_byte (hex_digit hi (uint b div 16)) (hex_digit lo (uint b mod 16)) = Some b"
proof -
  have "0 \<le> uint b div 16" "uint b div 16 < 16"
    using uint_byte_bounds [of b] by presburger+
  then show ?thesis
    by (simp add: escape_byte_def hexValue_hex_digit nibbles_or)
qed

lemma urlDecode_loop_keep:
  "c \<noteq> 37 \<Longrightarrow> urlDecode_loop i (c # cs) = (i, c) # urlDecode_loop (i + 1) cs"
  by (cases "(i, c # cs)" rule: urlDecode_loop.cases) auto

lemma urlDecode_loop_writing:
  assumes "b = 37 \<longrightarrow> w \<noteq> Literal"
  shows "urlDecode_loop i (pct_byte w b @ cs) = (i, b) # urlDecode_loop (i + length (pct_byte w b)) cs"
  using assms
  by (cases w) (simp_all add: urlDecode_loop_keep escape_byte_hex numeral_3_eq_3)

lemma urlDecode_loop_pct:
  "pct_writing ws bs \<Longrightarrow> map snd (urlDecode_loop i (pct_encode ws bs)) = bs"
  by (induction bs arbitrary: ws i) (auto simp: pct_writing_Cons urlDecode_loop_writing)

lemma urlDecode_loop_plain:
  "\<not> containsPercent src \<Longrightarrow> urlDecode_loop i src = map (\<lambda>k. (i + k, src ! k)) [0..<length src]"
proof (induction src arbitrary: i)
  case (Cons c cs)
  then show ?case
    by (auto simp: containsPercent_def urlDecode_loop_keep map_upt_Suc simp del: upt_Suc)
qed simp

end
