(* ===== verification/Regex.thy ===== *)
theory Regex
  imports Prelude
begin

unbundle bit_operations_syntax

text \<open>
  The parts of Go's standard library that every detector rests on: \<open>unicode/utf8\<close> rune
  decoding and the \<open>regexp\<close> matcher.  A pattern is a syntax tree; \<open>re_ends\<close> lists the
  ends of the matches from one position in order of preference (leftmost-first, the Perl rules
  that \<open>regexp\<close> follows), and \<open>FindAllIndex\<close> enumerates successive non-overlapping
  matches as the library does.  The lemmas give the bounds, the progress and the completeness of
  this enumeration.
\<close>

subsection \<open>Runes\<close>

type_synonym rune = int

definition RuneError :: rune where
  "RuneError = 65533"

definition cont :: "byte \<Rightarrow> bool" where
  "cont b \<longleftrightarrow> 128 \<le> b \<and> b \<le> 191"

text \<open>The range of second bytes that \<open>utf8\<close> accepts after a three- or four-byte lead.\<close>

definition second_ok :: "byte \<Rightarrow> byte \<Rightarrow> bool" where
  "second_ok b0 b1 =
     (if b0 = 0xE0 then 0xA0 \<le> b1 \<and> b1 \<le> 0xBF
      else if b0 = 0xED then 0x80 \<le> b1 \<and> b1 \<le> 0x9F
      else if b0 = 0xF0 then 0x90 \<le> b1 \<and> b1 \<le> 0xBF
      else if b0 = 0xF4 then 0x80 \<le> b1 \<and> b1 \<le> 0x8F
      else cont b1)"

definition low6 :: "byte \<Rightarrow> int" where
  "low6 b = uint b mod 64"

fun DecodeRune :: "bytes \<Rightarrow> rune \<times> nat" where
  "DecodeRune [] = (RuneError, 0)"
| "DecodeRune (b0 # bs) =
     (if b0 < 0x80 then (uint b0, 1)
      else if 0xC2 \<le> b0 \<and> b0 \<le> 0xDF then
        (case bs of
           b1 # _ \<Rightarrow> if cont b1 then (uint b0 mod 32 * 64 + low6 b1, 2) else (RuneError, 1)
         | [] \<Rightarrow> (RuneError, 1))
      else if 0xE0 \<le> b0 \<and> b0 \<le> 0xEF then
        (case bs of
           b1 # b2 # _ \<Rightarrow>
             if second_ok b0 b1 \<and> cont b2
             then (uint b0 mod 16 * 4096 + low6 b1 * 64 + low6 b2, 3) else (RuneError, 1)
         | _ \<Rightarrow> (RuneError, 1))
      else if 0xF0 \<le> b0 \<and> b0 \<le> 0xF4 then
        (case bs of
           b1 # b2 # b3 # _ \<Rightarrow>
             if second_ok b0 b1 \<and> cont b2 \<and> cont b3
             then (uint b0 mod 8 * 262144 + low6 b1 * 4096 + low6 b2 * 64 + low6 b3, 4)
             else (RuneError, 1)
         | _ \<Rightarrow> (RuneError, 1))
      else (RuneError, 1))"

text \<open>The conversion \<open>string(r)\<close>; runes outside the Unicode range become \<open>RuneError\<close>.\<close>

definition EncodeRune :: "rune \<Rightarrow> bytes" where
  "EncodeRune r0 =
     (let r = (if 0 \<le> r0 \<and> r0 < 0xD800 \<or> 0xE000 \<le> r0 \<and> r0 \<le> 0x10FFFF then r0 else RuneError) in
      if r < 0x80 then [word_of_int r]
      else if r < 0x800 then [word_of_int (192 + r div 64), word_of_int (128 + r mod 64)]
      else if r < 0x10000 then
        [word_of_int (224 + r div 4096), word_of_int (128 + r div 64 mod 64),
         word_of_int (128 + r mod 64)]
      else [word_of_int (240 + r div 262144), word_of_int (128 + r div 4096 mod 64),
            word_of_int (128 + r div 64 mod 64), word_of_int (128 + r mod 64)])"

lemma DecodeRune_width:
  "bs \<noteq> [] \<Longrightarrow> 1 \<le> snd (DecodeRune bs) \<and> snd (DecodeRune bs) \<le> length bs"
  by (cases bs) (auto split: list.splits)

lemma DecodeRune_ascii: "b < 0x80 \<Longrightarrow> DecodeRune (b # bs) = (uint b, 1)"
  by simp

subsection \<open>Patterns\<close>

text \<open>
  \<open>Cls neg fold rs\<close> is a character class over rune ranges; \<open>fold\<close> is the \<open>(?i)\<close> flag.
  \<open>Rep r m k g\<close> is \<open>r{m,k}\<close> (no upper bound for \<open>None\<close>), greedy iff \<open>g\<close>.
\<close>

datatype re =
    Empty
  | Cls bool bool "(rune \<times> rune) list"
  | WordB
  | BeginLine
  | EndLine
  | Cat re re
  | Alt re re
  | Rep re nat "nat option" bool

definition in_ranges :: "(rune \<times> rune) list \<Rightarrow> rune \<Rightarrow> bool" where
  "in_ranges rs r = list_ex (\<lambda>(lo, hi). lo \<le> r \<and> r \<le> hi) rs"

text \<open>
  The runes that fold to the same letter: the two cases of an ASCII letter, and the Kelvin sign
  and the long s, which Go folds with \<open>k\<close> and \<open>s\<close>.
\<close>

definition fold_orbit :: "rune \<Rightarrow> rune list" where
  "fold_orbit r =
     (if r = 107 \<or> r = 75 \<or> r = 0x212A then [107, 75, 0x212A]
      else if r = 115 \<or> r = 83 \<or> r = 0x17F then [115, 83, 0x17F]
      else if 97 \<le> r \<and> r \<le> 122 then [r, r - 32]
      else if 65 \<le> r \<and> r \<le> 90 then [r, r + 32]
      else [r])"

definition cls_match :: "bool \<Rightarrow> bool \<Rightarrow> (rune \<times> rune) list \<Rightarrow> rune \<Rightarrow> bool" where
  "cls_match neg fld rs r =
     (let hit = (if fld then list_ex (in_ranges rs) (fold_orbit r) else in_ranges rs r) in
      if neg then \<not> hit else hit)"

definition is_word :: "byte \<Rightarrow> bool" where
  "is_word b \<longleftrightarrow> 65 \<le> b \<and> b \<le> 90 \<or> 97 \<le> b \<and> b \<le> 122 \<or> 48 \<le> b \<and> b \<le> 57 \<or> b = 95"

definition word_at :: "bytes \<Rightarrow> nat \<Rightarrow> bool" where
  "word_at s i \<longleftrightarrow> i < length s \<and> is_word (s ! i)"

definition at_word_boundary :: "bytes \<Rightarrow> nat \<Rightarrow> bool" where
  "at_word_boundary s i \<longleftrightarrow> (0 < i \<and> word_at s (i - 1)) \<noteq> word_at s i"

definition at_begin_line :: "bytes \<Rightarrow> nat \<Rightarrow> bool" where
  "at_begin_line s i \<longleftrightarrow> i = 0 \<or> i \<le> length s \<and> s ! (i - 1) = 10"

definition at_end_line :: "bytes \<Rightarrow> nat \<Rightarrow> bool" where
  "at_end_line s i \<longleftrightarrow> i \<ge> length s \<or> s ! i = 10"

subsection \<open>Matching\<close>

text \<open>
  Repetition of a matcher \<open>f\<close> (from a position to the ends it can reach): exactly \<open>m\<close>
  times, then up to \<open>k\<close> more, each of which has to consume something.
\<close>

fun times_ends :: "(nat \<Rightarrow> nat list) \<Rightarrow> nat \<Rightarrow> nat \<Rightarrow> nat list" where
  "times_ends f 0 i = [i]"
| "times_ends f (Suc m) i = concat (map (times_ends f m) (f i))"

fun upto_ends :: "(nat \<Rightarrow> nat list) \<Rightarrow> nat \<Rightarrow> bool \<Rightarrow> nat \<Rightarrow> nat list" where
  "upto_ends f 0 g i = [i]"
| "upto_ends f (Suc k) g i =
     (let more = concat (map (upto_ends f k g) (filter (\<lambda>j. i < j) (f i))) in
      if g then more @ [i] else i # more)"

primrec re_ends :: "re \<Rightarrow> bytes \<Rightarrow> nat \<Rightarrow> nat list" where
  "re_ends Empty s i = [i]"
| "re_ends (Cls neg fld rs) s i =
     (if i < length s
      then case DecodeRune (drop i s) of (r, w) \<Rightarrow> if cls_match neg fld rs r then [i + w] else []
      else [])"
| "re_ends WordB s i = (if at_word_boundary s i then [i] else [])"
| "re_ends BeginLine s i = (if at_begin_line s i then [i] else [])"
| "re_ends EndLine s i = (if at_end_line s i then [i] else [])"
| "re_ends (Cat p q) s i = concat (map (re_ends q s) (re_ends p s i))"
| "re_ends (Alt p q) s i = re_ends p s i @ re_ends q s i"
| "re_ends (Rep p m mx g) s i =
     concat (map (\<lambda>j. upto_ends (re_ends p s)
                        (case mx of None \<Rightarrow> length s - j | Some k \<Rightarrow> k - m) g j)
                 (times_ends (re_ends p s) m i))"

definition match_at :: "re \<Rightarrow> bytes \<Rightarrow> nat \<Rightarrow> nat option" where
  "match_at p s i = (case re_ends p s i of [] \<Rightarrow> None | j # _ \<Rightarrow> Some j)"

text \<open>The unanchored search steps rune by rune to the leftmost position with a match.\<close>

definition step_width :: "bytes \<Rightarrow> nat \<Rightarrow> nat" where
  "step_width s i = max 1 (snd (DecodeRune (drop i s)))"

function find_from :: "re \<Rightarrow> bytes \<Rightarrow> nat \<Rightarrow> (nat \<times> nat) option" where
  "find_from p s i =
     (if length s < i then None
      else case match_at p s i of
             Some j \<Rightarrow> Some (i, j)
           | None \<Rightarrow> find_from p s (i + step_width s i))"
  by pat_completeness auto
termination
  by (relation "measure (\<lambda>(p, s, i). Suc (length s) - i)") (auto simp: step_width_def)

declare find_from.simps [simp del]

text \<open>
  \<open>regexp.FindAllIndex\<close> with no limit: an empty match right after the previous match is
  dropped, and an empty match moves the search on by one rune.
\<close>

function find_all_from :: "re \<Rightarrow> bytes \<Rightarrow> nat \<Rightarrow> nat option \<Rightarrow> (nat \<times> nat) list" where
  "find_all_from p s pos prev =
     (if length s < pos then []
      else case find_from p s pos of
             None \<Rightarrow> []
           | Some (a, b) \<Rightarrow>
               if b \<le> pos
               then (if prev = Some a then [] else [(a, b)])
                    @ find_all_from p s (pos + step_width s pos) (Some b)
               else (a, b) # find_all_from p s b (Some b))"
  by pat_completeness auto
termination
  by (relation "measure (\<lambda>(p, s, pos, prev). Suc (length s) - pos)") (auto simp: step_width_def)

declare find_all_from.simps [simp del]

definition FindAllIndex :: "re \<Rightarrow> bytes \<Rightarrow> (nat \<times> nat) list" where
  "FindAllIndex p s = find_all_from p s 0 None"

definition re_Match :: "re \<Rightarrow> bytes \<Rightarrow> bool" where
  "re_Match p s \<longleftrightarrow> find_from p s 0 \<noteq> None"

subsection \<open>Writing patterns\<close>

definition chr :: "char \<Rightarrow> rune" where
  "chr c = of_char c"

definition cls :: "(rune \<times> rune) list \<Rightarrow> re" where
  "cls rs = Cls False False rs"

definition ncls :: "(rune \<times> rune) list \<Rightarrow> re" where
  "ncls rs = Cls True False rs"

definition rng :: "char \<Rightarrow> char \<Rightarrow> rune \<times> rune" where
  "rng a b = (chr a, chr b)"

definition one_of :: "string \<Rightarrow> (rune \<times> rune) list" where
  "one_of cs = map (\<lambda>c. (chr c, chr c)) cs"

fun seqs :: "re list \<Rightarrow> re" where
  "seqs [] = Empty"
| "seqs [p] = p"
| "seqs (p # ps) = Cat p (seqs ps)"

fun alts :: "re list \<Rightarrow> re" where
  "alts [] = Cls False False []"
| "alts [p] = p"
| "alts (p # ps) = Alt p (alts ps)"

definition lit :: "string \<Rightarrow> re" where
  "lit cs = seqs (map (\<lambda>c. cls [(chr c, chr c)]) cs)"

definition star :: "re \<Rightarrow> re" where "star p = Rep p 0 None True"
definition plus :: "re \<Rightarrow> re" where "plus p = Rep p 1 None True"
definition opt :: "re \<Rightarrow> re" where "opt p = Rep p 0 (Some 1) True"
definition lazy_star :: "re \<Rightarrow> re" where "lazy_star p = Rep p 0 None False"
definition at_least :: "nat \<Rightarrow> re \<Rightarrow> re" where "at_least m p = Rep p m None True"
definition exactly :: "nat \<Rightarrow> re \<Rightarrow> re" where "exactly m p = Rep p m (Some m) True"
definition between :: "nat \<Rightarrow> nat \<Rightarrow> re \<Rightarrow> re" where "between m k p = Rep p m (Some k) True"

definition upper :: "(rune \<times> rune) list" where "upper = [rng CHR ''A'' CHR ''Z'']"
definition lower :: "(rune \<times> rune) list" where "lower = [rng CHR ''a'' CHR ''z'']"
definition digit :: "(rune \<times> rune) list" where "digit = [rng CHR ''0'' CHR ''9'']"
definition wordc :: "(rune \<times> rune) list" where "wordc = digit @ upper @ one_of ''_'' @ lower"
definition space :: "(rune \<times> rune) list" where
  "space = [(9, 10), (12, 13), (32, 32)]"

text \<open>The Unicode category \<open>Zs\<close>, the separators that the SQL detectors add to \<open>\s\<close>.\<close>

definition unicode_Zs :: "(rune \<times> rune) list" where
  "unicode_Zs = [(0x20, 0x20), (0xA0, 0xA0), (0x1680, 0x1680), (0x2000, 0x200A),
     (0x202F, 0x202F), (0x205F, 0x205F), (0x3000, 0x3000)]"

text \<open>The flag \<open>(?i)\<close> applied to a whole pattern.\<close>

primrec fold_case :: "re \<Rightarrow> re" where
  "fold_case Empty = Empty"
| "fold_case (Cls neg fld rs) = Cls neg True rs"
| "fold_case WordB = WordB"
| "fold_case BeginLine = BeginLine"
| "fold_case EndLine = EndLine"
| "fold_case (Cat p q) = Cat (fold_case p) (fold_case q)"
| "fold_case (Alt p q) = Alt (fold_case p) (fold_case q)"
| "fold_case (Rep p m mx g) = Rep (fold_case p) m mx g"

lemmas re_syntax [go_defs] =
  cls_def ncls_def rng_def one_of_def lit_def star_def plus_def opt_def lazy_star_def at_least_def
  exactly_def between_def upper_def lower_def digit_def wordc_def space_def chr_def

subsection \<open>Bounds and progress\<close>

text \<open>A pattern that can match the empty string.\<close>

primrec nullable :: "re \<Rightarrow> bool" where
  "nullable Empty = True"
| "nullable (Cls neg fld rs) = False"
| "nullable WordB = True"
| "nullable BeginLine = True"
| "nullable EndLine = True"
| "nullable (Cat p q) = (nullable p \<and> nullable q)"
| "nullable (Alt p q) = (nullable p \<or> nullable q)"
| "nullable (Rep p m mx g) = (m = 0 \<or> nullable p)"

text \<open>The two repetition loops stay within any bound their body respects.\<close>

lemma times_ends_bounds:
  assumes "\<And>i j. i \<le> n \<Longrightarrow> j \<in> set (f i) \<Longrightarrow> i \<le> j \<and> j \<le> n"
  shows "i \<le> n \<Longrightarrow> j \<in> set (times_ends f m i) \<Longrightarrow> i \<le> j \<and> j \<le> n"
proof (induction m arbitrary: i)
  case (Suc m)
  from Suc.prems(2) obtain k where k: "k \<in> set (f i)" "j \<in> set (times_ends f m k)"
    by auto
  have "i \<le> k" "k \<le> n"
    using assms [OF Suc.prems(1) k(1)] by simp_all
  then show ?case
    using Suc.IH [OF _ k(2)] by simp
qed simp

lemma times_ends_progress:
  assumes "\<And>i j. i \<le> n \<Longrightarrow> j \<in> set (f i) \<Longrightarrow> i < j \<and> j \<le> n"
    and "i \<le> n" and "0 < m" and "j \<in> set (times_ends f m i)"
  shows "i < j"
proof (cases m)
  case (Suc m')
  from assms(4) obtain k where k: "k \<in> set (f i)" "j \<in> set (times_ends f m' k)"
    by (auto simp: Suc)
  have "i < k" "k \<le> n"
    using assms(1) [OF assms(2) k(1)] by simp_all
  moreover have "k \<le> j"
    using times_ends_bounds [of n f k j m'] assms(1) \<open>k \<le> n\<close> k(2) by (meson less_imp_le)
  ultimately show ?thesis
    by simp
qed (use assms(3) in simp)

lemma upto_ends_bounds:
  assumes "\<And>i j. i \<le> n \<Longrightarrow> j \<in> set (f i) \<Longrightarrow> i \<le> j \<and> j \<le> n"
  shows "i \<le> n \<Longrightarrow> j \<in> set (upto_ends f k g i) \<Longrightarrow> i \<le> j \<and> j \<le> n"
proof (induction k arbitrary: i)
  case (Suc k)
  from Suc.prems(2) consider "j = i" | l where "l \<in> set (f i)" "i < l" "j \<in> set (upto_ends f k g l)"
    by (auto simp: Let_def split: if_splits)
  then show ?case
  proof cases
    case 2
    then show ?thesis
      using assms [OF Suc.prems(1) 2(1)] Suc.IH [of l] by simp
  qed (use Suc.prems in simp)
qed simp

lemma class_ends:
  assumes "i < length s" and "j \<in> set (re_ends (Cls neg fld rs) s i)"
  shows "j = i + snd (DecodeRune (drop i s))"
proof (cases "DecodeRune (drop i s)")
  case (Pair r w)
  with assms have "j \<in> set (if cls_match neg fld rs r then [i + w] else [])"
    by (simp only: re_ends.simps if_True prod.case)
  with Pair show ?thesis
    by (cases "cls_match neg fld rs r") simp_all
qed

lemma class_ends_bounds:
  assumes "j \<in> set (re_ends (Cls neg fld rs) s i)"
  shows "i < j \<and> j \<le> length s"
proof -
  have "i < length s"
    using assms by (cases "i < length s") simp_all
  then show ?thesis
    using class_ends [OF _ assms] DecodeRune_width [of "drop i s"] by (simp add: le_diff_conv2)
qed

lemma re_ends_bounds:
  "i \<le> length s \<Longrightarrow> j \<in> set (re_ends p s i) \<Longrightarrow> i \<le> j \<and> j \<le> length s"
proof (induction p arbitrary: i j)
  case (Cls neg fld rs)
  then show ?case
    using class_ends_bounds by (meson less_imp_le)
next
  case (Cat p q)
  from Cat.prems(2) obtain k where k: "k \<in> set (re_ends p s i)" "j \<in> set (re_ends q s k)"
    by auto
  have "i \<le> k" "k \<le> length s"
    using Cat.IH(1) [OF Cat.prems(1) k(1)] by simp_all
  then show ?case
    using Cat.IH(2) [OF _ k(2)] by simp
next
  case (Rep p m mx g)
  from Rep.prems(2) obtain k n where k: "k \<in> set (times_ends (re_ends p s) m i)"
      and j: "j \<in> set (upto_ends (re_ends p s) n g k)"
    by auto
  have "i \<le> k" "k \<le> length s"
    using times_ends_bounds [OF Rep.IH Rep.prems(1) k] by simp_all
  then show ?case
    using upto_ends_bounds [OF Rep.IH _ j] by simp
next
  case (Alt p q)
  from Alt.prems(2) have "j \<in> set (re_ends p s i) \<or> j \<in> set (re_ends q s i)"
    by simp
  then show ?case
    using Alt.IH [OF Alt.prems(1)] by blast
qed (simp_all split: if_splits)

lemma re_ends_progress:
  "\<not> nullable p \<Longrightarrow> i \<le> length s \<Longrightarrow> j \<in> set (re_ends p s i) \<Longrightarrow> i < j"
proof (induction p arbitrary: i j)
  case (Cls neg fld rs)
  then show ?case
    using class_ends_bounds by blast
next
  case (Cat p q)
  from Cat.prems(3) obtain k where k: "k \<in> set (re_ends p s i)" "j \<in> set (re_ends q s k)"
    by auto
  have le: "i \<le> k" "k \<le> length s" "k \<le> j"
    using re_ends_bounds [OF Cat.prems(2) k(1)] re_ends_bounds [OF _ k(2)] by simp_all
  show ?case
  proof (cases "nullable p")
    case True
    then show ?thesis
      using Cat.IH(2) [OF _ le(2) k(2)] Cat.prems(1) le by simp
  next
    case False
    then show ?thesis
      using Cat.IH(1) [OF _ Cat.prems(2) k(1)] le by simp
  qed
next
  case (Rep p m mx g)
  from Rep.prems(3) obtain k n where k: "k \<in> set (times_ends (re_ends p s) m i)"
      and j: "j \<in> set (upto_ends (re_ends p s) n g k)"
    by auto
  have step: "i < j \<and> j \<le> length s" if "i \<le> length s" "j \<in> set (re_ends p s i)" for i j
    using that Rep.IH Rep.prems(1) re_ends_bounds [OF that] by simp
  have "i < k"
    using times_ends_progress [OF step Rep.prems(2) _ k] Rep.prems(1) by simp
  moreover have "k \<le> length s"
    using times_ends_bounds [OF re_ends_bounds Rep.prems(2) k] by simp
  ultimately show ?case
    using upto_ends_bounds [of "length s" "re_ends p s" k j n g] re_ends_bounds [of _ s _ p] j
    by (meson order_less_le_trans)
next
  case (Alt p q)
  from Alt.prems(3) have "j \<in> set (re_ends p s i) \<or> j \<in> set (re_ends q s i)"
    by simp
  then show ?case
    using Alt.IH [OF _ Alt.prems(2)] Alt.prems(1) by auto
qed simp_all

lemma match_at_bounds: "match_at p s i = Some j \<Longrightarrow> i \<le> length s \<Longrightarrow> i \<le> j \<and> j \<le> length s"
  using re_ends_bounds [of i s j p] by (auto simp: match_at_def split: list.splits)

lemma match_at_progress:
  "\<not> nullable p \<Longrightarrow> match_at p s i = Some j \<Longrightarrow> i \<le> length s \<Longrightarrow> i < j"
  using re_ends_progress [of p i s j] by (auto simp: match_at_def split: list.splits)

lemma step_width_pos [simp]: "0 < step_width s i"
  by (simp add: step_width_def)

subsection \<open>Rune boundaries\<close>

text \<open>\<open>rune_steps s i j\<close>: decoding runes from position \<open>i\<close> reaches position \<open>j\<close>.\<close>

inductive rune_steps :: "bytes \<Rightarrow> nat \<Rightarrow> nat \<Rightarrow> bool" for s :: bytes where
  here: "rune_steps s i i"
| step: "i < length s \<Longrightarrow> rune_steps s (i + step_width s i) j \<Longrightarrow> rune_steps s i j"

inductive_cases rune_stepsE: "rune_steps s i j"

lemma rune_steps_le: "rune_steps s i j \<Longrightarrow> i \<le> j"
  by (induction rule: rune_steps.induct) (auto intro: order.trans)

lemma rune_steps_trans: "rune_steps s i j \<Longrightarrow> rune_steps s j k \<Longrightarrow> rune_steps s i k"
  by (induction rule: rune_steps.induct) (auto intro: rune_steps.intros)

text \<open>Decoding is deterministic: of two positions reached from one, the later is reached from the earlier.\<close>

lemma rune_steps_between:
  "rune_steps s i j \<Longrightarrow> rune_steps s i k \<Longrightarrow> j \<le> k \<Longrightarrow> rune_steps s j k"
proof (induction rule: rune_steps.induct)
  case (here i)
  then show ?case by simp
next
  case (step i j)
  have "i + step_width s i \<le> j"
    using rune_steps_le [OF step.hyps(2)] .
  then have "i \<noteq> k"
    using step.prems(2) step_width_pos [of s i] by linarith
  with step.prems(1) have "rune_steps s (i + step_width s i) k"
    by (auto elim: rune_stepsE)
  then show ?case
    using step.IH step.prems(2) by blast
qed

lemma step_width_decode: "i < length s \<Longrightarrow> step_width s i = snd (DecodeRune (drop i s))"
  using DecodeRune_width [of "drop i s"] by (simp add: step_width_def)

lemma rune_steps_one: "i < length s \<Longrightarrow> rune_steps s i (i + step_width s i)"
  by (rule rune_steps.step) (auto intro: rune_steps.here)

lemma times_ends_steps:
  assumes "\<And>i j. j \<in> set (f i) \<Longrightarrow> rune_steps s i j"
  shows "j \<in> set (times_ends f m i) \<Longrightarrow> rune_steps s i j"
proof (induction m arbitrary: i)
  case (Suc m)
  then obtain k where "k \<in> set (f i)" "j \<in> set (times_ends f m k)"
    by auto
  then show ?case
    using assms Suc.IH by (blast intro: rune_steps_trans)
qed (simp add: rune_steps.here)

lemma upto_ends_steps:
  assumes "\<And>i j. j \<in> set (f i) \<Longrightarrow> rune_steps s i j"
  shows "j \<in> set (upto_ends f k g i) \<Longrightarrow> rune_steps s i j"
proof (induction k arbitrary: i)
  case (Suc k)
  from Suc.prems consider "j = i" | l where "l \<in> set (f i)" "j \<in> set (upto_ends f k g l)"
    by (auto simp: Let_def split: if_splits)
  then show ?case
    using assms Suc.IH by cases (blast intro: rune_steps_trans rune_steps.here)+
qed (simp add: rune_steps.here)

lemma re_ends_steps: "j \<in> set (re_ends p s i) \<Longrightarrow> rune_steps s i j"
proof (induction p arbitrary: i j)
  case (Cls neg fld rs)
  have "i < length s"
    using Cls by (cases "i < length s") simp_all
  then show ?case
    using class_ends [OF _ Cls] rune_steps_one [of i s] by (simp add: step_width_decode)
next
  case (Cat p q)
  from Cat.prems obtain k where "k \<in> set (re_ends p s i)" "j \<in> set (re_ends q s k)"
    by auto
  then show ?case
    using Cat.IH by (blast intro: rune_steps_trans)
next
  case (Alt p q)
  from Alt.prems have "j \<in> set (re_ends p s i) \<or> j \<in> set (re_ends q s i)"
    by simp
  then show ?case
    using Alt.IH by blast
next
  case (Rep p m mx g)
  from Rep.prems obtain k n where "k \<in> set (times_ends (re_ends p s) m i)"
      "j \<in> set (upto_ends (re_ends p s) n g k)"
    by auto
  then show ?case
    using times_ends_steps [OF Rep.IH] upto_ends_steps [OF Rep.IH]
    by (blast intro: rune_steps_trans)
qed (simp_all add: rune_steps.here split: if_splits)

lemma match_at_steps: "match_at p s i = Some j \<Longrightarrow> rune_steps s i j"
  using re_ends_steps [of j p s i] by (auto simp: match_at_def split: list.splits)

subsection \<open>The search\<close>

lemma find_from_Some:
  "find_from p s i = Some (a, b) \<Longrightarrow>
    i \<le> a \<and> a \<le> b \<and> b \<le> length s \<and> match_at p s a = Some b"
proof (induction p s i rule: find_from.induct)
  case (1 p s i)
  show ?case
  proof (cases "length s < i \<or> (\<exists>j. match_at p s i = Some j)")
    case True
    then show ?thesis
      using "1.prems" match_at_bounds [of p s i b]
      by (auto simp: find_from.simps [of p s i] split: if_splits)
  next
    case False
    then show ?thesis
      using 1 by (simp add: find_from.simps [of p s i])
  qed
qed

lemma find_from_complete:
  "rune_steps s i j \<Longrightarrow> j \<le> length s \<Longrightarrow> match_at p s j \<noteq> None \<Longrightarrow>
    \<exists>a b. find_from p s i = Some (a, b) \<and> a \<le> j \<and> rune_steps s i a"
proof (induction rule: rune_steps.induct)
  case (here i)
  then show ?case
    by (auto simp: find_from.simps [of p s i] intro: rune_steps.here)
next
  case (step i j)
  have "i \<le> j"
    using rune_steps_le [OF step.hyps(2)] by simp
  show ?case
  proof (cases "match_at p s i")
    case None
    then show ?thesis
      using step by (auto simp: find_from.simps [of p s i] intro: rune_steps.step)
  next
    case (Some b)
    then show ?thesis
      using step.hyps(1) \<open>i \<le> j\<close> by (auto simp: find_from.simps [of p s i] intro: rune_steps.here)
  qed
qed

text \<open>Successive matches: in order, disjoint, non-empty and within the text.\<close>

fun matches_in :: "nat \<Rightarrow> nat \<Rightarrow> (nat \<times> nat) list \<Rightarrow> bool" where
  "matches_in lo n [] = True"
| "matches_in lo n ((a, b) # ms) = (lo \<le> a \<and> a < b \<and> b \<le> n \<and> matches_in b n ms)"

lemma matches_in_mono: "matches_in lo n ms \<Longrightarrow> lo' \<le> lo \<Longrightarrow> matches_in lo' n ms"
  by (cases ms) auto

lemma matches_in_mem: "matches_in lo n ms \<Longrightarrow> (a, b) \<in> set ms \<Longrightarrow> lo \<le> a \<and> a < b \<and> b \<le> n"
  by (induction lo n ms rule: matches_in.induct) fastforce+

lemma matches_in_disjoint: "matches_in lo n ms \<Longrightarrow> sorted_wrt (\<lambda>(a, b) (c, d). b \<le> c) ms"
  by (induction lo n ms rule: matches_in.induct) (auto dest: matches_in_mem)

lemma find_all_from_nonnull:
  assumes "\<not> nullable p"
  shows "find_all_from p s pos prev =
    (if length s < pos then []
     else case find_from p s pos of None \<Rightarrow> []
          | Some (a, b) \<Rightarrow> (a, b) # find_all_from p s b (Some b))"
proof -
  have "a < b" if "find_from p s pos = Some (a, b)" for a b
    using find_from_Some [OF that] match_at_progress [OF assms, of s a b] by simp
  moreover have "pos \<le> a" if "find_from p s pos = Some (a, b)" for a b
    using find_from_Some [OF that] by simp
  ultimately show ?thesis
    by (subst find_all_from.simps) (fastforce split: option.splits)
qed

lemma find_all_from_matches_in:
  "\<not> nullable p \<Longrightarrow> matches_in pos (length s) (find_all_from p s pos prev)"
proof (induction "Suc (length s) - pos" arbitrary: pos prev rule: less_induct)
  case less
  show ?case
  proof (cases "length s < pos \<or> find_from p s pos = None")
    case True
    then show ?thesis
      by (auto simp: find_all_from_nonnull [OF less.prems, of s pos prev])
  next
    case False
    then obtain a b where f: "find_from p s pos = Some (a, b)"
      by auto
    have ab: "pos \<le> a" "a < b" "b \<le> length s"
      using find_from_Some [OF f] match_at_progress [OF less.prems, of s a b] by simp_all
    then have "matches_in b (length s) (find_all_from p s b (Some b))"
      using less by simp
    then show ?thesis
      using False f ab by (simp add: find_all_from_nonnull [OF less.prems, of s pos prev])
  qed
qed

lemma find_all_from_match_at:
  "\<not> nullable p \<Longrightarrow> (a, b) \<in> set (find_all_from p s pos prev) \<Longrightarrow> match_at p s a = Some b"
proof (induction "Suc (length s) - pos" arbitrary: pos prev rule: less_induct)
  case less
  from less.prems(2) have np: "\<not> length s < pos"
    by (cases "length s < pos") (simp_all add: find_all_from_nonnull [OF less.prems(1), of s pos prev])
  with less.prems(2) obtain a' b' where f: "find_from p s pos = Some (a', b')"
    by (cases "find_from p s pos") (auto simp: find_all_from_nonnull [OF less.prems(1), of s pos prev])
  have "pos < b'" "b' \<le> length s"
    using find_from_Some [OF f] match_at_progress [OF less.prems(1), of s a' b'] by simp_all
  then have less': "Suc (length s) - b' < Suc (length s) - pos"
    by simp
  from less.prems(2) f np consider "a = a'" "b = b'" | "(a, b) \<in> set (find_all_from p s b' (Some b'))"
    by (auto simp: find_all_from_nonnull [OF less.prems(1), of s pos prev])
  then show ?case
    using find_from_Some [OF f] less.hyps [OF less' less.prems(1)] by cases auto
qed

lemma find_all_from_complete:
  "\<not> nullable p \<Longrightarrow> rune_steps s pos j \<Longrightarrow> j \<le> length s \<Longrightarrow> match_at p s j \<noteq> None \<Longrightarrow>
    \<exists>(a, b)\<in>set (find_all_from p s pos prev). a \<le> j \<and> j < b"
proof (induction "Suc (length s) - pos" arbitrary: pos prev rule: less_induct)
  case less
  obtain a b where f: "find_from p s pos = Some (a, b)" and aj: "a \<le> j" "rune_steps s pos a"
    using find_from_complete [OF less.prems(2-4)] by blast
  have ab: "pos \<le> a" "a < b" "b \<le> length s" "match_at p s a = Some b"
    using find_from_Some [OF f] match_at_progress [OF less.prems(1), of s a b] by simp_all
  have all: "find_all_from p s pos prev = (a, b) # find_all_from p s b (Some b)"
    using f ab by (simp add: find_all_from_nonnull [OF less.prems(1), of s pos prev])
  show ?case
  proof (cases "j < b")
    case True
    then show ?thesis
      using aj by (auto simp: all)
  next
    case False
    have "rune_steps s pos b"
      using rune_steps_trans [OF aj(2) match_at_steps [OF ab(4)]] .
    then have "rune_steps s b j"
      using False by (intro rune_steps_between [OF _ less.prems(2)]) simp_all
    moreover have "Suc (length s) - b < Suc (length s) - pos"
      using ab by simp
    ultimately have "\<exists>(a, b)\<in>set (find_all_from p s b (Some b)). a \<le> j \<and> j < b"
      using less.hyps less.prems by blast
    then show ?thesis
      unfolding all by auto
  qed
qed

lemma FindAllIndex_in: "\<not> nullable p \<Longrightarrow> matches_in 0 (length s) (FindAllIndex p s)"
  unfolding FindAllIndex_def by (rule find_all_from_matches_in)

lemma FindAllIndex_bounds:
  "\<not> nullable p \<Longrightarrow> (a, b) \<in> set (FindAllIndex p s) \<Longrightarrow> a < b \<and> b \<le> length s"
  using matches_in_mem [OF FindAllIndex_in] by blast

lemma FindAllIndex_match_at:
  "\<not> nullable p \<Longrightarrow> (a, b) \<in> set (FindAllIndex p s) \<Longrightarrow> match_at p s a = Some b"
  unfolding FindAllIndex_def by (rule find_all_from_match_at)

lemma FindAllIndex_complete:
  assumes "\<not> nullable p" "rune_steps s 0 j" "j \<le> length s" "match_at p s j \<noteq> None"
  shows "\<exists>(a, b)\<in>set (FindAllIndex p s). a \<le> j \<and> j < b"
  unfolding FindAllIndex_def using find_all_from_complete [OF assms] .

lemma rune_steps_ascii:
  assumes "\<And>i. i < j \<Longrightarrow> s ! i < 0x80" and "j \<le> length s"
  shows "rune_steps s 0 j"
  using assms
proof (induction j)
  case (Suc j)
  have "drop j s = s ! j # drop (Suc j) s"
    using Suc.prems(2) by (simp add: Cons_nth_drop_Suc)
  then have "step_width s j = 1"
    using Suc.prems by (simp add: step_width_def)
  then have "rune_steps s j (Suc j)"
    using rune_steps_one [of j s] Suc.prems(2) by simp
  then show ?case
    using Suc by (auto intro: rune_steps_trans)
qed (rule rune_steps.here)

text \<open>
  A multi-byte rune contains no ASCII byte after its first, so every position that holds an ASCII
  byte is a rune boundary, whatever precedes it.
\<close>

lemma cont_not_ascii: "cont b \<Longrightarrow> \<not> b < 0x80"
  by (simp add: cont_def not_less)

lemma second_not_ascii:
  assumes "second_ok b0 b1" shows "\<not> b1 < 0x80"
proof -
  have "(0x80 :: byte) \<le> b1"
    using assms unfolding second_ok_def cont_def
    by (cases "b0 = 0xE0"; cases "b0 = 0xED"; cases "b0 = 0xF0"; cases "b0 = 0xF4")
      (simp_all add: word_le_nat_alt)
  then show ?thesis by simp
qed

text \<open>The runes of more than one byte, by their first bytes.\<close>

lemma DecodeRune_shapes:
  assumes "1 < snd (DecodeRune bs)"
  obtains (two) b0 b1 r where "bs = b0 # b1 # r" "snd (DecodeRune bs) = 2" "cont b1"
  | (three) b0 b1 b2 r where "bs = b0 # b1 # b2 # r" "snd (DecodeRune bs) = 3"
      "second_ok b0 b1" "cont b2"
  | (four) b0 b1 b2 b3 r where "bs = b0 # b1 # b2 # b3 # r" "snd (DecodeRune bs) = 4"
      "second_ok b0 b1" "cont b2" "cont b3"
  using assms by (cases bs) (auto split: if_splits list.splits)

lemma DecodeRune_tail:
  assumes "0 < k" "k < snd (DecodeRune bs)"
  shows "\<not> bs ! k < 0x80"
proof -
  have "1 < snd (DecodeRune bs)"
    using assms by simp
  then show ?thesis
  proof (cases rule: DecodeRune_shapes)
    case (two b0 b1 r)
    then have "k = 1" using assms by simp
    then show ?thesis using two by (simp add: cont_not_ascii)
  next
    case (three b0 b1 b2 r)
    then have "k = 1 \<or> k = 2" using assms by auto
    then show ?thesis using three second_not_ascii cont_not_ascii by auto
  next
    case (four b0 b1 b2 b3 r)
    then have "k = 1 \<or> k = 2 \<or> k = 3" using assms by auto
    then show ?thesis using four second_not_ascii cont_not_ascii by auto
  qed
qed

lemma rune_steps_to_ascii:
  assumes "i \<le> j" "j < length s" "s ! j < 0x80"
  shows "rune_steps s i j"
  using assms(1)
proof (induction "j - i" arbitrary: i rule: less_induct)
  case less
  show ?case
  proof (cases "i = j")
    case True
    then show ?thesis by (simp add: rune_steps.here)
  next
    case False
    then have i: "i < j" "i < length s"
      using less.prems assms(2) by simp_all
    have le: "i + step_width s i \<le> j"
    proof (rule ccontr)
      assume "\<not> ?thesis"
      then have "j - i < snd (DecodeRune (drop i s))"
        using i step_width_decode [OF i(2)] by linarith
      then have "\<not> drop i s ! (j - i) < 0x80"
        using i by (intro DecodeRune_tail) simp_all
      then show False
        using assms i by simp
    qed
    have "j - (i + step_width s i) < j - i"
      using i(1) step_width_pos [of s i] by linarith
    then have "rune_steps s (i + step_width s i) j"
      using le by (rule less.hyps)
    then show ?thesis
      by (rule rune_steps.step [OF i(2)])
  qed
qed

lemma DecodeRune_pos: "DecodeRune (b # bs) = (r, w) \<Longrightarrow> 0 < w"
  using DecodeRune_width [of "b # bs"] by (metis One_nat_def Suc_le_lessD list.distinct(1) snd_conv)

declare DecodeRune.simps(2) [simp del]
declare DecodeRune_ascii [simp]

subsection \<open>Classes of ASCII characters\<close>

lemma low6_bounds: "0 \<le> low6 b \<and> low6 b < 64"
  by (simp add: low6_def)

lemma second_big:
  assumes "second_ok 0xE0 b1"
  shows "32 \<le> low6 b1"
proof -
  have "0xA0 \<le> uint b1" "uint b1 \<le> 0xBF"
    using assms by (simp_all add: second_ok_def word_le_def)
  then show ?thesis
    unfolding low6_def by presburger
qed

lemma second_big4:
  assumes "second_ok 0xF0 b1"
  shows "16 \<le> low6 b1"
proof -
  have "0x90 \<le> uint b1" "uint b1 \<le> 0xBF"
    using assms by (simp_all add: second_ok_def word_le_def)
  then show ?thesis
    unfolding low6_def by presburger
qed

lemma lead2:
  assumes "0xC2 \<le> (b :: byte)" "b \<le> 0xDF"
  shows "2 \<le> uint b mod 32"
proof -
  have "0xC2 \<le> uint b" "uint b \<le> 0xDF"
    using assms by (simp_all add: word_le_def)
  then show ?thesis
    by presburger
qed

lemma lead3:
  assumes "0xE0 \<le> (b :: byte)" "b \<le> 0xEF" "b \<noteq> 0xE0"
  shows "1 \<le> uint b mod 16"
proof -
  have "0xE0 \<le> uint b" "uint b \<le> 0xEF"
    using assms by (simp_all add: word_le_def)
  moreover have "uint b \<noteq> 0xE0"
    using assms(3) by (metis word_of_int_uint word_of_int_numeral)
  ultimately show ?thesis
    by presburger
qed

lemma lead4:
  assumes "0xF0 \<le> (b :: byte)" "b \<le> 0xF4" "b \<noteq> 0xF0"
  shows "1 \<le> uint b mod 8"
proof -
  have "0xF0 \<le> uint b" "uint b \<le> 0xF4"
    using assms by (simp_all add: word_le_def)
  moreover have "uint b \<noteq> 0xF0"
    using assms(3) by (metis word_of_int_uint word_of_int_numeral)
  ultimately show ?thesis
    by presburger
qed

lemma rune2: "0xC2 \<le> (b :: byte) \<Longrightarrow> b \<le> 0xDF \<Longrightarrow> 0x80 \<le> uint b mod 32 * 64 + low6 b1"
  using lead2[of b] low6_bounds [of b1] by linarith

lemma rune3:
  "0xE0 \<le> (b :: byte) \<Longrightarrow> b \<le> 0xEF \<Longrightarrow> second_ok b b1 \<Longrightarrow>
    0x80 \<le> uint b mod 16 * 4096 + low6 b1 * 64 + low6 b2"
proof (cases "b = 0xE0")
  case True
  assume "second_ok b b1"
  then have "32 \<le> low6 b1" using second_big True by simp
  then show ?thesis using True low6_bounds [of b2] by simp
next
  case False
  assume "0xE0 \<le> b" "b \<le> 0xEF"
  then show ?thesis using lead3[OF _ _ False] low6_bounds [of b1] low6_bounds [of b2] by linarith
qed

lemma rune4:
  "0xF0 \<le> (b :: byte) \<Longrightarrow> b \<le> 0xF4 \<Longrightarrow> second_ok b b1 \<Longrightarrow>
    0x80 \<le> uint b mod 8 * 262144 + low6 b1 * 4096 + low6 b2 * 64 + low6 b3"
proof (cases "b = 0xF0")
  case True
  assume "second_ok b b1"
  then have "16 \<le> low6 b1" using second_big4 True by simp
  then show ?thesis using True low6_bounds [of b2] low6_bounds [of b3] by simp
next
  case False
  assume "0xF0 \<le> b" "b \<le> 0xF4"
  then show ?thesis using lead4[OF _ _ False] low6_bounds [of b1]
      low6_bounds [of b2] low6_bounds [of b3] by linarith
qed

lemma DecodeRune_nonascii:
  assumes "\<not> b < 0x80" shows "0x80 \<le> fst (DecodeRune (b # bs))"
  using assms rune2[of b] rune3[of b] rune4[of b]
  by (simp add: DecodeRune.simps(2) RuneError_def split: list.split)

text \<open>A class of ASCII ranges reads single bytes.\<close>

definition ascii_ranges :: "(rune \<times> rune) list \<Rightarrow> bool" where
  "ascii_ranges rs \<longleftrightarrow> list_all (\<lambda>(lo, hi). hi < 128) rs"

definition class_at :: "(rune \<times> rune) list \<Rightarrow> bytes \<Rightarrow> nat \<Rightarrow> bool" where
  "class_at rs s i \<longleftrightarrow> i < length s \<and> in_ranges rs (uint (s ! i))"

lemma in_ascii_ranges: "ascii_ranges rs \<Longrightarrow> in_ranges rs r \<Longrightarrow> r < 128"
  by (fastforce simp: ascii_ranges_def in_ranges_def list_all_iff list_ex_iff)

lemma ascii_class_ends:
  assumes "ascii_ranges rs"
  shows "re_ends (Cls False False rs) s i = (if class_at rs s i then [Suc i] else [])"
proof (cases "i < length s")
  case True
  have d: "drop i s = s ! i # drop (Suc i) s"
    using True by (simp add: Cons_nth_drop_Suc)
  show ?thesis
  proof (cases "s ! i < 0x80")
    case True
    with \<open>i < length s\<close> show ?thesis
      by (simp add: class_at_def cls_match_def d)
  next
    case False
    obtain r w where rw: "DecodeRune (s ! i # drop (Suc i) s) = (r, w)"
      by (cases "DecodeRune (s ! i # drop (Suc i) s)")
    have "128 \<le> r"
      using DecodeRune_nonascii [OF False, of "drop (Suc i) s"] by (simp add: rw)
    moreover have "128 \<le> uint (s ! i)"
      using False by (simp add: word_less_def)
    ultimately have "\<not> in_ranges rs r" "\<not> in_ranges rs (uint (s ! i))"
      using in_ascii_ranges [OF assms] by force+
    then show ?thesis
      by (simp add: class_at_def cls_match_def d rw)
  qed
qed (simp add: class_at_def)

text \<open>Repetition of a matcher that advances by one position where \<open>P\<close> holds.\<close>

definition one_step :: "(nat \<Rightarrow> bool) \<Rightarrow> nat \<Rightarrow> nat list" where
  "one_step P i = (if P i then [Suc i] else [])"

lemma ascii_class_one_step:
  "ascii_ranges rs \<Longrightarrow> re_ends (Cls False False rs) s = one_step (class_at rs s)"
  unfolding one_step_def using ascii_class_ends by blast

lemma one_step_simps [simp]: "P i \<Longrightarrow> one_step P i = [Suc i]" "\<not> P i \<Longrightarrow> one_step P i = []"
  by (simp_all add: one_step_def)

lemma times_ends_one_step:
  "times_ends (one_step P) m i = (if \<forall>k<m. P (i + k) then [i + m] else [])"
proof (induction m arbitrary: i)
  case (Suc m)
  have "(\<forall>k<Suc m. P (i + k)) \<longleftrightarrow> P i \<and> (\<forall>k<m. P (Suc i + k))"
    by (auto simp: less_Suc_eq_0_disj)
  then show ?case
    using Suc by (cases "P i") simp_all
qed simp

lemma upto_ends_nonempty [simp]: "upto_ends f k g i \<noteq> []"
  by (cases k) (simp_all add: Let_def)

text \<open>A greedy run ends where \<open>P\<close> first fails.\<close>

lemma upto_ends_greedy_hd:
  assumes "\<And>k. k < n \<Longrightarrow> P (i + k)" and "n = m \<or> n < m \<and> \<not> P (i + n)"
  shows "hd (upto_ends (one_step P) m True i) = i + n"
  using assms
proof (induction m arbitrary: i n)
  case (Suc m)
  show ?case
  proof (cases n)
    case 0
    then show ?thesis
      using Suc.prems by simp
  next
    case (Suc n')
    have "hd (upto_ends (one_step P) m True (Suc i)) = Suc i + n'"
      using Suc.IH [of n' "Suc i"] Suc.prems(1) [of "Suc _"] Suc.prems(2) Suc by auto
    moreover have "P i"
      using Suc.prems(1) [of 0] Suc by simp
    ultimately show ?thesis
      using Suc by simp
  qed
qed simp

lemma FindAllIndex_whole:
  assumes "\<not> nullable p" and "match_at p s 0 = Some (length s)" and "s \<noteq> []"
    and "match_at p s (length s) = None"
  shows "FindAllIndex p s = [(0, length s)]"
proof -
  have "find_from p s 0 = Some (0, length s)"
    using assms by (simp add: find_from.simps)
  moreover have "find_from p s (length s) = None"
    using assms(4) by (subst find_from.simps) (simp add: find_from.simps [of p s "length s + _"])
  ultimately show ?thesis
    by (simp add: FindAllIndex_def find_all_from_nonnull [OF assms(1)])
qed


subsection \<open>Patterns of fixed width\<close>

text \<open>
  A pattern is rigid when it matches \<open>w\<close> bytes exactly where a condition on the text holds.  Token
  formats with a fixed number of characters are built from such pieces.
\<close>

definition rigid :: "re \<Rightarrow> nat \<Rightarrow> (bytes \<Rightarrow> nat \<Rightarrow> bool) \<Rightarrow> bool" where
  "rigid p w C \<longleftrightarrow> (\<forall>s i. re_ends p s i = (if C s i then [i + w] else []))"

lemma rigid_WordB: "rigid WordB 0 at_word_boundary"
  by (simp add: rigid_def)

lemma rigid_cls: "ascii_ranges rs \<Longrightarrow> rigid (cls rs) 1 (class_at rs)"
  by (simp add: rigid_def cls_def ascii_class_ends del: re_ends.simps)

lemma rigid_exactly:
  "ascii_ranges rs \<Longrightarrow> rigid (exactly n (cls rs)) n (\<lambda>s i. \<forall>k<n. class_at rs s (i + k))"
  by (simp add: rigid_def exactly_def cls_def ascii_class_one_step times_ends_one_step
      del: re_ends.simps(2))

lemma rigid_Cat:
  assumes "rigid p v C" "rigid q w D"
  shows "rigid (Cat p q) (v + w) (\<lambda>s i. C s i \<and> D s (i + v))"
  using assms by (simp add: rigid_def add.assoc)

lemma rigid_match_at: "rigid p w C \<Longrightarrow> match_at p s i = (if C s i then Some (i + w) else None)"
  by (simp add: rigid_def match_at_def)

text \<open>An occurrence that no earlier occurrence overlaps is found exactly.\<close>

lemma rigid_found:
  assumes r: "rigid p w C" and nn: "\<not> nullable p" and c: "C s j" and j: "j < length s" "s ! j < 0x80"
    and alone: "\<And>a. a < j \<Longrightarrow> j < a + w \<Longrightarrow> \<not> C s a"
  shows "(j, j + w) \<in> set (FindAllIndex p s)"
proof -
  obtain a b where ab: "(a, b) \<in> set (FindAllIndex p s)" "a \<le> j" "j < b"
    using FindAllIndex_complete [OF nn rune_steps_to_ascii [of 0 j s]] j c rigid_match_at [OF r]
    by fastforce
  have "match_at p s a = Some b"
    by (rule FindAllIndex_match_at [OF nn ab(1)])
  then have "C s a" "b = a + w"
    by (simp_all add: rigid_match_at [OF r] split: if_splits)
  then have "a = j"
    using alone [of a] ab(2,3) by force
  then show ?thesis
    using ab(1) \<open>b = a + w\<close> by simp
qed

end
