(* ===== verification/Normalize.thy ===== *)
theory Normalize
  imports Views Regex
begin

text \<open>
  The compatibility-normalised view, \<open>src/internal/pipeline/normalize.go\<close>.  Unicode
  normalisation is \<open>golang.org/x/text/unicode/norm\<close>, outside the repository: the parameter
  \<open>nfkc\<close> stands for \<open>norm.NFKC.String\<close> on one encoded rune.  Several output bytes may come
  from one rune, so the table is sorted but not strictly.
\<close>

definition containsNonASCII :: "bytes \<Rightarrow> bool" where
  "containsNonASCII data = list_ex (\<lambda>b. 0x80 \<le> b) data"

function nfkc_loop :: "(bytes \<Rightarrow> bytes) \<Rightarrow> nat \<Rightarrow> bytes \<Rightarrow> (nat \<times> byte) list" where
  "nfkc_loop nfkc pos [] = []"
| "nfkc_loop nfkc pos (b # bs) =
     (case DecodeRune (b # bs) of
        (r, sz) \<Rightarrow>
          if r = RuneError \<and> sz = 1
          then (pos, b) # nfkc_loop nfkc (pos + 1) bs
          else map (Pair pos) (nfkc (EncodeRune r))
               @ nfkc_loop nfkc (pos + sz) (drop sz (b # bs)))"
  by pat_completeness auto
termination
  by (relation "measure (\<lambda>(f, pos, bs). length bs)") (auto dest!: DecodeRune_pos [OF sym])

definition nfkcNormalize :: "(bytes \<Rightarrow> bytes) \<Rightarrow> transform" where
  "nfkcNormalize nfkc src =
     (if \<not> containsNonASCII src then (src, None)
      else case table_of (nfkc_loop nfkc 0 src) (length src) of
             (out, idx) \<Rightarrow> if out = src then (out, None) else (out, Some idx))"

subsection \<open>The offset table\<close>

lemma nfkc_loop_nondecreasing: "nondecreasing pos (pos + length src) (nfkc_loop nfkc pos src)"
proof (induction nfkc pos src rule: nfkc_loop.induct)
  case (1 nfkc pos)
  then show ?case by (simp add: nondecreasing_def)
next
  case (2 nfkc pos b bs)
  obtain r w where rw: "DecodeRune (b # bs) = (r, w)"
    by (cases "DecodeRune (b # bs)")
  have w: "1 \<le> w" "w \<le> length (b # bs)"
    using DecodeRune_width [of "b # bs"] by (simp_all only: rw snd_conv list.distinct simp_thms)
  show ?case
  proof (cases "r = RuneError \<and> w = 1")
    case True
    have "nondecreasing (pos + 1) (pos + 1 + length bs) (nfkc_loop nfkc (pos + 1) bs)"
      using "2.IH"(1) [OF rw [symmetric]] True by simp
    moreover have "nondecreasing pos (pos + 1) [(pos, b)]"
      by (simp add: nondecreasing_def)
    moreover have "pos \<le> pos + 1" "pos + 1 \<le> pos + 1 + length bs"
      by simp_all
    ultimately have "nondecreasing pos (pos + 1 + length bs) ([(pos, b)] @ nfkc_loop nfkc (pos + 1) bs)"
      by (metis nondecreasing_append)
    moreover have "nfkc_loop nfkc pos (b # bs) = [(pos, b)] @ nfkc_loop nfkc (pos + 1) bs"
      by (simp only: nfkc_loop.simps(2) [of nfkc pos b bs] rw) (simp add: True)
    ultimately show ?thesis
      by simp
  next
    case False
    let ?rest = "nfkc_loop nfkc (pos + w) (drop w (b # bs))"
    have "nondecreasing (pos + w) (pos + w + length (drop w (b # bs))) ?rest"
      using "2.IH"(2) [OF rw [symmetric] False] .
    moreover have "pos + w + length (drop w (b # bs)) = pos + length (b # bs)"
      using w by simp
    ultimately have "nondecreasing pos (pos + length (b # bs))
        (map (Pair pos) (nfkc (EncodeRune r)) @ ?rest)"
      using w by (intro nondecreasing_append [of _ "pos + w"] nondecreasing_const) simp_all
    then show ?thesis
      by (simp only: nfkc_loop.simps(2) [of nfkc pos b bs] rw prod.case if_not_P [OF False])
  qed
qed

interpretation nfkc_view: offset_view "nfkcNormalize nfkc" for nfkc
proof
  fix src out idx
  assume "nfkcNormalize nfkc src = (out, Some idx)"
  then have "table_of (nfkc_loop nfkc 0 src) (length src) = (out, idx)"
    by (auto simp: nfkcNormalize_def split: prod.splits if_splits)
  then show "length idx = Suc (length out)" "sorted idx" "last idx = length src"
    using table_of_nondecreasing [OF nfkc_loop_nondecreasing [of 0 src nfkc, simplified]]
    by simp_all
qed

text \<open>Pure ASCII bodies are never transformed, so the extra pass is skipped.\<close>

lemma nfkcNormalize_ascii: "list_all (\<lambda>b. b < 0x80) src \<Longrightarrow> nfkcNormalize nfkc src = (src, None)"
  by (auto simp: nfkcNormalize_def containsNonASCII_def list_ex_iff list_all_iff not_less [symmetric])

end
