(* ===== verification/Base64.thy ===== *)
theory Base64
  imports Views Regex
begin

unbundle bit_operations_syntax

text \<open>
  The base64 view, \<open>src/internal/pipeline/base64.go\<close>: every candidate run that decodes to
  mostly printable text is replaced by its decoded form.  The decoder itself is Go's
  \<open>base64.StdEncoding\<close>.  The byte-level pre-check finds a run exactly when the pattern does,
  and decoding undoes encoding; decoded bytes carry the offset of their four-character group, so
  the table is sorted but not strictly.
\<close>

subsection \<open>The code\<close>

definition minBase64Run :: nat where
  "minBase64Run = 16"

definition printableRatio :: rat where
  "printableRatio = 70 / 100"

definition isBase64Char :: "byte \<Rightarrow> bool" where
  "isBase64Char b \<longleftrightarrow>
     65 \<le> b \<and> b \<le> 90 \<or> 97 \<le> b \<and> b \<le> 122 \<or> 48 \<le> b \<and> b \<le> 57 \<or> b = 43 \<or> b = 47"

definition base64Candidate :: re where
  "base64Candidate =
     seqs [at_least minBase64Run (cls (upper @ lower @ digit @ one_of ''+/'')),
           between 0 2 (lit ''='')]"

fun base64_run :: "nat \<Rightarrow> bytes \<Rightarrow> bool" where
  "base64_run run [] = False"
| "base64_run run (b # bs) =
     (if isBase64Char b
      then if run + 1 \<ge> minBase64Run then True else base64_run (run + 1) bs
      else base64_run 0 bs)"

definition containsBase64Candidate :: "bytes \<Rightarrow> bool" where
  "containsBase64Candidate data = base64_run 0 data"

text \<open>
  \<open>StdEncoding.DecodeString\<close>: line breaks are skipped, groups of four characters give three
  bytes, and padding is accepted only at the end of the last group.
\<close>

definition b64_value :: "byte \<Rightarrow> int option" where
  "b64_value c =
     (if 65 \<le> c \<and> c \<le> 90 then Some (uint c - 65)
      else if 97 \<le> c \<and> c \<le> 122 then Some (uint c - 71)
      else if 48 \<le> c \<and> c \<le> 57 then Some (uint c + 4)
      else if c = 43 then Some 62
      else if c = 47 then Some 63
      else None)"

definition b64_triple :: "int \<Rightarrow> int \<Rightarrow> int \<Rightarrow> int \<Rightarrow> bytes" where
  "b64_triple x y z w =
     (let v = ((x * 64 + y) * 64 + z) * 64 + w in
      [word_of_int (v div 65536), word_of_int (v div 256), word_of_int v])"

fun b64_quanta :: "bytes \<Rightarrow> bytes option" where
  "b64_quanta [] = Some []"
| "b64_quanta (a # b # c # d # cs) =
     (case (b64_value a, b64_value b) of
        (Some x, Some y) \<Rightarrow>
          if c = 61 then (if d = 61 \<and> cs = [] then Some (take 1 (b64_triple x y 0 0)) else None)
          else (case b64_value c of
                  None \<Rightarrow> None
                | Some z \<Rightarrow>
                    if d = 61 then (if cs = [] then Some (take 2 (b64_triple x y z 0)) else None)
                    else (case b64_value d of
                            None \<Rightarrow> None
                          | Some w \<Rightarrow> (case b64_quanta cs of
                                         None \<Rightarrow> None
                                       | Some out \<Rightarrow> Some (b64_triple x y z w @ out))))
      | _ \<Rightarrow> None)"
| "b64_quanta _ = None"

definition b64_DecodeString :: "bytes \<Rightarrow> bytes option" where
  "b64_DecodeString s = b64_quanta (filter (\<lambda>c. c \<noteq> 10 \<and> c \<noteq> 13) s)"

definition is_printable :: "byte \<Rightarrow> bool" where
  "is_printable c \<longleftrightarrow> c = 9 \<or> c = 10 \<or> c = 13 \<or> 32 \<le> c \<and> c < 0x7F"

definition isMostlyPrintable :: "bytes \<Rightarrow> rat \<Rightarrow> bool" where
  "isMostlyPrintable b threshold =
     (if b = [] then False
      else of_nat (length (filter is_printable b)) / of_nat (length b) \<ge> threshold)"

text \<open>What the loop body decides for one candidate: its decoded form, or \<open>None\<close> to emit it verbatim.\<close>

definition base64_try :: "bytes \<Rightarrow> bytes option" where
  "base64_try cand =
     (if length cand mod 4 \<noteq> 0 then None
      else case b64_DecodeString cand of
             None \<Rightarrow> None
           | Some decoded \<Rightarrow>
               if \<not> isMostlyPrintable decoded printableRatio then None else Some decoded)"

definition base64_groups :: "nat \<Rightarrow> bytes \<Rightarrow> (nat \<times> byte) list" where
  "base64_groups st decoded =
     map (\<lambda>i. (st + i div 3 * 4, decoded ! i)) [0..<length decoded]"

fun base64_loop :: "bytes \<Rightarrow> nat \<Rightarrow> (nat \<times> nat) list \<Rightarrow> (nat \<times> byte) list \<times> bool" where
  "base64_loop src pos [] = (verbatim src pos (length src), False)"
| "base64_loop src pos ((st, en) # cs) =
     (case base64_loop src en cs of
        (rest, any) \<Rightarrow>
          (case base64_try (slice st en src) of
             None \<Rightarrow> (verbatim src pos st @ verbatim src st en @ rest, any)
           | Some decoded \<Rightarrow> (verbatim src pos st @ base64_groups st decoded @ rest, True)))"

definition base64Decode :: transform where
  "base64Decode src =
     (let candidates = FindAllIndex base64Candidate src in
      if candidates = [] then (src, None)
      else case base64_loop src 0 candidates of
             (ps, any) \<Rightarrow>
               if \<not> any then (src, None)
               else case table_of ps (length src) of (out, idx) \<Rightarrow> (out, Some idx))"

text \<open>The decimal rendering used to build the pattern.\<close>

function intToStr_loop :: "int \<Rightarrow> string \<Rightarrow> string" where
  "intToStr_loop n buf =
     (if n > 0 then intToStr_loop (n div 10) (digit_char (nat (n mod 10)) # buf) else buf)"
  by pat_completeness auto
termination
  by (relation "measure (\<lambda>(n, buf). nat n)") auto

declare intToStr_loop.simps [simp del]

definition intToStr :: "int \<Rightarrow> string" where
  "intToStr n = (if n = 0 then ''0'' else intToStr_loop n [])"

subsection \<open>The offset table\<close>

lemma base64Candidate_nonnull: "\<not> nullable base64Candidate"
  by (simp add: base64Candidate_def at_least_def minBase64Run_def cls_def)

lemma b64_quanta_length: "b64_quanta s = Some out \<Longrightarrow> length out * 4 \<le> length s * 3"
  by (induction s arbitrary: out rule: b64_quanta.induct)
    (fastforce split: option.splits if_splits simp: b64_triple_def Let_def)+

lemma b64_DecodeString_length:
  "b64_DecodeString s = Some out \<Longrightarrow> length out * 4 \<le> length s * 3"
  using b64_quanta_length [of "filter (\<lambda>c. c \<noteq> 10 \<and> c \<noteq> 13) s" out]
    length_filter_le [of "\<lambda>c. c \<noteq> 10 \<and> c \<noteq> 13" s]
  unfolding b64_DecodeString_def by linarith

lemma base64_try_length: "base64_try cand = Some out \<Longrightarrow> length out * 4 \<le> length cand * 3"
  by (auto simp: base64_try_def split: if_splits option.splits intro: b64_DecodeString_length)

lemma base64_try_mod: "base64_try cand = Some out \<Longrightarrow> length cand mod 4 = 0"
  by (auto simp: base64_try_def split: if_splits)

lemma base64_groups_nondecreasing:
  assumes "base64_try (slice st en src) = Some out" "st \<le> en" "en \<le> length src"
  shows "nondecreasing st en (base64_groups st out)"
proof -
  have len: "length out * 4 \<le> (en - st) * 3"
    using base64_try_length [OF assms(1)] assms(3) by simp
  have "i div 3 * 4 < en - st" if "i < length out" for i
  proof -
    have "(en - st) mod 4 = 0"
      using base64_try_mod [OF assms(1)] assms(3) by simp
    then obtain q where q: "en - st = 4 * q"
      by auto
    then have "i < q * 3" using len that by simp
    then have "i div 3 < q" by (simp add: less_mult_imp_div_less)
    then show ?thesis using q by simp
  qed
  then show ?thesis
    using assms(2) by (fastforce simp: nondecreasing_def base64_groups_def sorted_iff_nth_mono
        comp_def div_le_mono)
qed

lemma base64_loop_nondecreasing:
  "matches_in pos (length src) cs \<Longrightarrow> pos \<le> length src \<Longrightarrow> base64_loop src pos cs = (ps, any) \<Longrightarrow>
    nondecreasing pos (length src) ps"
proof (induction cs arbitrary: pos ps any)
  case Nil
  then show ?case
    by (auto intro: ascending_nondecreasing ascending_verbatim)
next
  case (Cons c cs)
  obtain st en where c: "c = (st, en)" by (cases c)
  obtain rest any' where r: "base64_loop src en cs = (rest, any')"
    by (cases "base64_loop src en cs")
  have le: "pos \<le> st" "st \<le> en" "en \<le> length src" and m: "matches_in en (length src) cs"
    using Cons.prems(1) by (simp_all add: c)
  have rest: "nondecreasing en (length src) rest"
    using Cons.IH [OF m le(3) r] .
  have pre: "nondecreasing pos st (verbatim src pos st)"
    using le by (intro ascending_nondecreasing ascending_verbatim) simp_all
  define mid where "mid = (case base64_try (slice st en src) of
      None \<Rightarrow> verbatim src st en | Some decoded \<Rightarrow> base64_groups st decoded)"
  have mid: "nondecreasing st en mid"
    unfolding mid_def using le
    by (auto split: option.splits intro: ascending_nondecreasing ascending_verbatim
        base64_groups_nondecreasing)
  have "ps = verbatim src pos st @ mid @ rest"
    using Cons.prems(3) by (auto simp: c r mid_def split: option.splits)
  moreover have "nondecreasing st (length src) (mid @ rest)"
    by (rule nondecreasing_append [OF mid rest le(2,3)])
  ultimately show ?case
    using nondecreasing_append [OF pre, of "length src" "mid @ rest"] le by simp
qed

interpretation base64_view: offset_view base64Decode
proof
  fix src out idx
  assume "base64Decode src = (out, Some idx)"
  then obtain ps any where "base64_loop src 0 (FindAllIndex base64Candidate src) = (ps, any)"
      and t: "table_of ps (length src) = (out, idx)"
    by (auto simp: base64Decode_def Let_def split: prod.splits if_splits)
  then have "nondecreasing 0 (length src) ps"
    using base64_loop_nondecreasing [OF FindAllIndex_in [OF base64Candidate_nonnull]] by simp
  then show "length idx = Suc (length out)" "sorted idx" "last idx = length src"
    using table_of_nondecreasing [OF _ t] by simp_all
qed

subsection \<open>The pre-check is exact\<close>

lemma in_base64_class:
  "in_ranges (upper @ lower @ digit @ one_of ''+/'') (uint b) = isBase64Char b"
  by (auto simp: in_ranges_def isBase64Char_def re_syntax word_le_def word_uint_eq_iff)

lemma base64_class_ascii: "ascii_ranges (upper @ lower @ digit @ one_of ''+/'')"
  by (simp add: ascii_ranges_def re_syntax)

definition run_at :: "bytes \<Rightarrow> nat \<Rightarrow> bool" where
  "run_at s j \<longleftrightarrow> j + minBase64Run \<le> length s \<and> (\<forall>k<minBase64Run. isBase64Char (s ! (j + k)))"

lemma run_at_class:
  "run_at s j \<longleftrightarrow> (\<forall>k<minBase64Run. class_at (upper @ lower @ digit @ one_of ''+/'') s (j + k))"
proof
  assume "run_at s j"
  then show "\<forall>k<minBase64Run. class_at (upper @ lower @ digit @ one_of ''+/'') s (j + k)"
    by (auto simp: run_at_def class_at_def in_base64_class)
next
  assume c: "\<forall>k<minBase64Run. class_at (upper @ lower @ digit @ one_of ''+/'') s (j + k)"
  then have "j + (minBase64Run - 1) < length s"
    by (auto simp: class_at_def minBase64Run_def)
  then show "run_at s j"
    using c by (auto simp: run_at_def class_at_def in_base64_class minBase64Run_def)
qed

lemma match_at_candidate: "match_at base64Candidate s j \<noteq> None \<longleftrightarrow> run_at s j"
proof -
  have ne: "re_ends (between 0 2 (lit ''='')) s i \<noteq> []" for i
    by (simp add: between_def)
  have "match_at base64Candidate s j \<noteq> None \<longleftrightarrow> re_ends base64Candidate s j \<noteq> []"
    by (simp add: match_at_def split: list.splits)
  also have "\<dots> \<longleftrightarrow> times_ends (re_ends (cls (upper @ lower @ digit @ one_of ''+/'')) s) minBase64Run j \<noteq> []"
    using ne by (auto simp: base64Candidate_def at_least_def) (metis upto_ends_nonempty last_in_set)+
  also have "\<dots> \<longleftrightarrow> run_at s j"
    unfolding cls_def ascii_class_one_step [OF base64_class_ascii] times_ends_one_step run_at_class
    by simp
  finally show ?thesis .
qed

text \<open>The byte loop counts a run that may begin before the bytes it still has to read.\<close>

definition has_run :: "bool list \<Rightarrow> bool" where
  "has_run xs \<longleftrightarrow> (\<exists>j. j + minBase64Run \<le> length xs \<and> (\<forall>k<minBase64Run. xs ! (j + k)))"

lemma has_run_break:
  assumes "run < minBase64Run"
  shows "has_run (replicate run True @ False # xs) \<longleftrightarrow> has_run xs"
proof
  assume "has_run (replicate run True @ False # xs)"
  then obtain j where j: "j + minBase64Run \<le> run + Suc (length xs)"
      and all: "\<And>k. k < minBase64Run \<Longrightarrow> (replicate run True @ False # xs) ! (j + k)"
    by (auto simp: has_run_def)
  have "run < j"
  proof (rule ccontr)
    assume "\<not> run < j"
    moreover have "run - j < minBase64Run"
      using assms by simp
    ultimately show False
      using all [of "run - j"] by (simp add: nth_append)
  qed
  then have "xs ! (j - Suc run + k)" if "k < minBase64Run" for k
    using all [OF that] by (simp add: nth_append Suc_diff_Suc)
  then show "has_run xs"
    using j \<open>run < j\<close> unfolding has_run_def by (intro exI [of _ "j - Suc run"]) auto
next
  assume "has_run xs"
  then obtain j where "j + minBase64Run \<le> length xs" "\<forall>k<minBase64Run. xs ! (j + k)"
    by (auto simp: has_run_def)
  then show "has_run (replicate run True @ False # xs)"
    unfolding has_run_def by (intro exI [of _ "Suc run + j"]) (auto simp: nth_append)
qed

lemma base64_run_iff:
  "run < minBase64Run \<Longrightarrow>
    base64_run run bs \<longleftrightarrow> has_run (replicate run True @ map isBase64Char bs)"
proof (induction bs arbitrary: run)
  case Nil
  then show ?case by (simp add: has_run_def)
next
  case (Cons b bs)
  show ?case
  proof (cases "isBase64Char b")
    case True
    have eq: "replicate run True @ map isBase64Char (b # bs) =
        replicate (Suc run) True @ map isBase64Char bs"
      using True by (simp add: replicate_app_Cons_same)
    have step: "base64_run run (b # bs) \<longleftrightarrow> minBase64Run \<le> Suc run \<or> base64_run (Suc run) bs"
      using True by simp
    show ?thesis
    proof (cases "Suc run < minBase64Run")
      case lt: True
      then show ?thesis
        unfolding eq step using Cons.IH [OF lt] by linarith
    next
      case False
      then have "Suc run = minBase64Run" using Cons.prems by simp
      then have "has_run (replicate (Suc run) True @ map isBase64Char bs)"
        unfolding has_run_def by (intro exI [of _ 0]) (auto simp: nth_append simp del: replicate.simps)
      then show ?thesis
        unfolding eq step using False by linarith
    qed
  next
    case False
    then show ?thesis
      using Cons.IH [of 0] has_run_break [OF Cons.prems] by (simp add: minBase64Run_def)
  qed
qed

lemma has_run_run_at: "has_run (map isBase64Char s) \<longleftrightarrow> (\<exists>j. run_at s j)"
  by (auto simp: has_run_def run_at_def)

lemma contains_iff_candidates:
  "containsBase64Candidate data \<longleftrightarrow> FindAllIndex base64Candidate data \<noteq> []"
proof -
  have "containsBase64Candidate data \<longleftrightarrow> (\<exists>j. run_at data j)"
    using base64_run_iff [of 0 data] has_run_run_at
    by (simp add: containsBase64Candidate_def minBase64Run_def)
  moreover have "FindAllIndex base64Candidate data \<noteq> []" if "run_at data j" for j
  proof -
    have "j < length data" "isBase64Char (data ! j)"
      using that by (auto simp: run_at_def minBase64Run_def dest: spec [of _ 0])
    moreover have "b < 0x80" if "isBase64Char b" for b :: byte
      using that by (auto simp: isBase64Char_def word_less_nat_alt word_le_nat_alt)
    ultimately have "rune_steps data 0 j"
      by (intro rune_steps_to_ascii) auto
    then show ?thesis
      using FindAllIndex_complete [OF base64Candidate_nonnull] match_at_candidate that
        \<open>j < length data\<close> by fastforce
  qed
  moreover have "\<exists>j. run_at data j" if ne: "FindAllIndex base64Candidate data \<noteq> []"
  proof -
    obtain a b where "(a, b) \<in> set (FindAllIndex base64Candidate data)"
      using ne by (cases "FindAllIndex base64Candidate data") auto
    then show ?thesis
      using FindAllIndex_match_at [OF base64Candidate_nonnull] match_at_candidate by force
  qed
  ultimately show ?thesis by blast
qed

subsection \<open>Decoding undoes encoding\<close>

definition b64_char :: "int \<Rightarrow> byte" where
  "b64_char n =
     (if n < 26 then word_of_int (n + 65)
      else if n < 52 then word_of_int (n + 71)
      else if n < 62 then word_of_int (n - 4)
      else if n = 62 then 43 else 47)"

fun b64_encode :: "bytes \<Rightarrow> bytes" where
  "b64_encode [] = []"
| "b64_encode [a] =
     [b64_char (uint a div 4), b64_char (uint a mod 4 * 16), 61, 61]"
| "b64_encode [a, b] =
     [b64_char (uint a div 4), b64_char (uint a mod 4 * 16 + uint b div 16),
      b64_char (uint b mod 16 * 4), 61]"
| "b64_encode (a # b # c # bs) =
     [b64_char (uint a div 4), b64_char (uint a mod 4 * 16 + uint b div 16),
      b64_char (uint b mod 16 * 4 + uint c div 64), b64_char (uint c mod 64)] @ b64_encode bs"

lemma uint_small: "0 \<le> n \<Longrightarrow> n < 256 \<Longrightarrow> uint (word_of_int n :: byte) = n"
  by (simp add: uint_word_of_int_eq take_bit_int_eq_self)

definition sextet :: "int \<Rightarrow> bool" where
  "sextet n \<longleftrightarrow> 0 \<le> n \<and> n < 64"

lemma b64_char_uint:
  assumes "sextet n"
  shows "uint (b64_char n) =
    (if n < 26 then n + 65 else if n < 52 then n + 71 else if n < 62 then n - 4
     else if n = 62 then 43 else 47)"
proof -
  have "uint (word_of_int (n + 65) :: byte) = n + 65" "uint (word_of_int (n + 71) :: byte) = n + 71"
    using assms by (intro uint_small; simp add: sextet_def)+
  moreover have "uint (word_of_int (n - 4) :: byte) = n - 4" if "52 \<le> n"
    using assms that by (intro uint_small) (simp_all add: sextet_def)
  ultimately show ?thesis
    unfolding b64_char_def by (auto simp del: of_int_add of_int_diff)
qed

lemma b64_value_uint:
  "b64_value c =
     (let u = uint c in
      if 65 \<le> u \<and> u \<le> 90 then Some (u - 65)
      else if 97 \<le> u \<and> u \<le> 122 then Some (u - 71)
      else if 48 \<le> u \<and> u \<le> 57 then Some (u + 4)
      else if u = 43 then Some 62
      else if u = 47 then Some 63
      else None)"
  by (simp add: b64_value_def word_le_def word_uint_eq_iff Let_def)

lemma b64_value_char [simp]: "sextet n \<Longrightarrow> b64_value (b64_char n) = Some n"
  by (auto simp: b64_value_uint b64_char_uint sextet_def Let_def)

lemma b64_value_alphabet: "b64_value c \<noteq> None \<longleftrightarrow> isBase64Char c"
  by (auto simp: b64_value_def isBase64Char_def)

lemma b64_char_alphabet [simp]: "sextet n \<Longrightarrow> isBase64Char (b64_char n)"
  using b64_value_char [of n] b64_value_alphabet [of "b64_char n"] by simp

lemma alphabet_not_special: "isBase64Char c \<Longrightarrow> c \<noteq> 61 \<and> c \<noteq> 10 \<and> c \<noteq> 13"
  by (auto simp: isBase64Char_def)

lemma byte_parts:
  fixes x :: byte
  shows "0 \<le> uint x div 4" "uint x div 4 < 64" "0 \<le> uint x div 16" "uint x div 16 < 16"
    "0 \<le> uint x div 64" "uint x div 64 < 4"
  using uint_byte_bounds [of x] by presburger+

lemma sextet_sums:
  "0 \<le> x \<Longrightarrow> x < 4 \<Longrightarrow> 0 \<le> y \<Longrightarrow> y < 16 \<Longrightarrow> sextet (x * 16 + y)"
  "0 \<le> x \<Longrightarrow> x < 16 \<Longrightarrow> 0 \<le> y \<Longrightarrow> y < 4 \<Longrightarrow> sextet (x * 4 + y)"
  by (simp_all add: sextet_def)

lemma sextet_parts [simp]:
  fixes a b c :: byte
  shows "sextet (uint a div 4)" "sextet (uint a mod 4 * 16 + uint b div 16)"
    "sextet (uint b mod 16 * 4 + uint c div 64)" "sextet (uint c mod 64)"
    "sextet (uint a mod 4 * 16)" "sextet (uint b mod 16 * 4)"
  using sextet_sums(1) [of "uint a mod 4" "uint b div 16"] sextet_sums(1) [of "uint a mod 4" 0]
    sextet_sums(2) [of "uint b mod 16" "uint c div 64"] sextet_sums(2) [of "uint b mod 16" 0]
  by (simp_all only: byte_parts pos_mod_bound pos_mod_sign sextet_def zero_less_numeral simp_thms
      add_0_right le_refl)

lemma b64_char_neq [simp]:
  assumes "sextet n" shows "b64_char n \<noteq> 61" "b64_char n \<noteq> 10" "b64_char n \<noteq> 13"
  using alphabet_not_special [OF b64_char_alphabet [OF assms]] by simp_all

lemma byte_of_int: "x mod 256 = uint (b :: byte) \<Longrightarrow> word_of_int x = b"
  by (simp add: word_uint_eq_iff uint_word_of_int)

lemma join_sextets:
  "4 * p + q = a \<Longrightarrow> 16 * r + s = b \<Longrightarrow> 64 * t + w = c \<Longrightarrow>
    ((p * 64 + (q * 16 + r)) * 64 + (s * 4 + t)) * 64 + w = a * 65536 + b * 256 + (c :: int)"
  by simp

lemma b64_triple_join:
  fixes a b c :: byte
  shows "b64_triple (uint a div 4) (uint a mod 4 * 16 + uint b div 16)
    (uint b mod 16 * 4 + uint c div 64) (uint c mod 64) = [a, b, c]"
proof -
  let ?v = "(((uint a div 4) * 64 + (uint a mod 4 * 16 + uint b div 16)) * 64
      + (uint b mod 16 * 4 + uint c div 64)) * 64 + uint c mod 64"
  have v: "?v = uint a * 65536 + uint b * 256 + uint c"
    by (rule join_sextets) (rule mult_div_mod_eq)+
  have "?v div 65536 = uint a"
    using uint_byte_bounds [of b] uint_byte_bounds [of c] unfolding v
    by (intro int_div_pos_eq [where r = "uint b * 256 + uint c"]) simp_all
  moreover have "?v div 256 = uint a * 256 + uint b"
    using uint_byte_bounds [of c] unfolding v
    by (intro int_div_pos_eq [where r = "uint c"]) simp_all
  moreover have "word_of_int (uint a * 256 + uint b) = b"
    using uint_byte_bounds [of b]
    by (intro byte_of_int int_mod_pos_eq [where q = "uint a"]) simp_all
  moreover have "word_of_int ?v = c"
    using uint_byte_bounds [of c] unfolding v
    by (intro byte_of_int int_mod_pos_eq [where q = "uint a * 256 + uint b"]) simp_all
  ultimately show ?thesis
    unfolding b64_triple_def Let_def by (simp only: word_of_int_uint)
qed

lemma b64_triple_pad1:
  fixes a b :: byte
  shows "take 2 (b64_triple (uint a div 4) (uint a mod 4 * 16 + uint b div 16) (uint b mod 16 * 4) 0)
    = [a, b]"
  using b64_triple_join [of a b 0] by (simp add: b64_triple_def Let_def)

lemma b64_triple_pad2:
  fixes a :: byte
  shows "take (Suc 0) (b64_triple (uint a div 4) (uint a mod 4 * 16) 0 0) = [a]"
  using b64_triple_join [of a 0 0] by (simp add: b64_triple_def Let_def)

lemma b64_quanta_encode: "b64_quanta (b64_encode bs) = Some bs"
  by (induction bs rule: b64_encode.induct)
    (simp_all add: b64_triple_pad1 b64_triple_pad2 b64_triple_join)

lemma b64_encode_no_break: "filter (\<lambda>c. c \<noteq> 10 \<and> c \<noteq> 13) (b64_encode bs) = b64_encode bs"
  by (induction bs rule: b64_encode.induct) simp_all

lemma b64_Decode_encode: "b64_DecodeString (b64_encode bs) = Some bs"
  by (simp add: b64_DecodeString_def b64_encode_no_break b64_quanta_encode)

lemma length_b64_encode: "length (b64_encode bs) = (length bs + 2) div 3 * 4"
proof (induction bs rule: b64_encode.induct)
  case (4 a b c bs)
  have "(length (a # b # c # bs) + 2) div 3 = Suc ((length bs + 2) div 3)"
    using div_add_self2 [of 3 "length bs + 2"] by (simp add: add.commute)
  then show ?case
    using 4 by (simp only: b64_encode.simps length_append length_Cons list.size) simp
qed simp_all

text \<open>The shape of encoded text: alphabet characters, then at most two padding characters.\<close>

lemma b64_encode_shape:
  "\<exists>cs p. b64_encode bs = cs @ replicate p 61 \<and> p \<le> 2 \<and> list_all isBase64Char cs \<and>
    length bs \<le> length cs"
proof (induction bs rule: b64_encode.induct)
  case 1
  then show ?case by simp
next
  case (2 a)
  show ?case
    by (intro exI [of _ "[b64_char (uint a div 4), b64_char (uint a mod 4 * 16)]"] exI [of _ 2])
      (simp add: numeral_2_eq_2)
next
  case (3 a b)
  show ?case
    by (intro exI [of _ "[b64_char (uint a div 4), b64_char (uint a mod 4 * 16 + uint b div 16),
        b64_char (uint b mod 16 * 4)]"] exI [of _ 1]) simp
next
  case (4 a b c bs)
  then obtain cs p where "b64_encode bs = cs @ replicate p 61" "p \<le> 2" "list_all isBase64Char cs"
      "length bs \<le> length cs"
    by blast
  then show ?case
    by (intro exI [of _ "[b64_char (uint a div 4), b64_char (uint a mod 4 * 16 + uint b div 16),
        b64_char (uint b mod 16 * 4 + uint c div 64), b64_char (uint c mod 64)] @ cs"]
        exI [of _ p]) simp
qed

lemma match_at_padded:
  assumes s: "s = cs @ replicate p 61" and p: "p \<le> 2" and cs: "list_all isBase64Char cs"
    and len: "minBase64Run \<le> length cs"
  shows "match_at base64Candidate s 0 = Some (length s)"
proof -
  let ?B = "upper @ lower @ digit @ one_of ''+/''" and ?E = "[(61, 61)] :: (rune \<times> rune) list"
  have ls: "length s = length cs + p"
    by (simp add: s)
  have B: "class_at ?B s i \<longleftrightarrow> i < length cs" for i
    using cs by (auto simp: class_at_def s in_base64_class nth_append list_all_length
        isBase64Char_def)
  have E: "class_at ?E s (length cs + k) \<longleftrightarrow> k < p" for k
    by (auto simp: class_at_def s nth_append in_ranges_def)
  have ra: "re_ends (cls ?B) s = one_step (class_at ?B s)"
    unfolding cls_def by (rule ascii_class_one_step [OF base64_class_ascii])
  have rb: "re_ends (lit ''='') s = one_step (class_at ?E s)"
    unfolding lit_def cls_def chr_def
    by (simp add: ascii_class_one_step ascii_ranges_def del: re_ends.simps)
  have times: "times_ends (one_step (class_at ?B s)) minBase64Run 0 = [minBase64Run]"
    using len by (simp add: times_ends_one_step B)
  have first: "hd (upto_ends (one_step (class_at ?B s)) (length s - minBase64Run) True minBase64Run)
      = minBase64Run + (length cs - minBase64Run)"
    using len ls by (intro upto_ends_greedy_hd) (auto simp: B)
  have second: "hd (upto_ends (one_step (class_at ?E s)) 2 True (length cs)) = length cs + p"
    using p by (intro upto_ends_greedy_hd) (auto simp: E)
  obtain rest where up: "upto_ends (one_step (class_at ?B s)) (length s - minBase64Run) True
      minBase64Run = length cs # rest"
    using first len by (metis hd_Cons_tl le_add_diff_inverse upto_ends_nonempty)
  obtain rest' where up': "upto_ends (one_step (class_at ?E s)) 2 True (length cs) =
      (length cs + p) # rest'"
    using second by (metis hd_Cons_tl upto_ends_nonempty)
  have "re_ends base64Candidate s 0 \<noteq> [] \<and> hd (re_ends base64Candidate s 0) = length cs + p"
    unfolding base64Candidate_def at_least_def between_def
    by (simp add: ra rb times up up')
  then show ?thesis
    by (cases "re_ends base64Candidate s 0") (simp_all add: match_at_def s)
qed

lemma base64Decode_encode:
  assumes "minBase64Run \<le> length bs" and "isMostlyPrintable bs printableRatio"
  shows "base64Decode (b64_encode bs) =
    (bs, Some (map (\<lambda>i. i div 3 * 4) [0..<length bs] @ [length (b64_encode bs)]))"
proof -
  let ?s = "b64_encode bs"
  obtain cs p where sh: "?s = cs @ replicate p 61" "p \<le> 2" "list_all isBase64Char cs"
      "length bs \<le> length cs"
    using b64_encode_shape by blast
  have m: "match_at base64Candidate ?s 0 = Some (length ?s)"
    using match_at_padded [OF sh(1-3)] sh(4) assms(1) by linarith
  have e: "match_at base64Candidate ?s (length ?s) = None"
    using match_at_candidate [of ?s "length ?s"] by (auto simp: run_at_def minBase64Run_def)
  have ne: "?s \<noteq> []"
    using sh assms(1) by (auto simp: minBase64Run_def)
  have all: "FindAllIndex base64Candidate ?s = [(0, length ?s)]"
    by (rule FindAllIndex_whole [OF base64Candidate_nonnull m ne e])
  have "base64_try ?s = Some bs"
    using assms(2) by (simp add: base64_try_def b64_Decode_encode length_b64_encode)
  then show ?thesis
    by (simp add: base64Decode_def all table_of_def base64_groups_def verbatim_def comp_def map_nth)
qed

lemma intToStr_loop_itoa: "0 < n \<Longrightarrow> intToStr_loop (int n) buf = itoa n @ buf"
proof (induction n arbitrary: buf rule: less_induct)
  case (less n)
  show ?case
  proof (cases "n < 10")
    case True
    then show ?thesis
      using less.prems
      by (simp add: intToStr_loop.simps [of "int n"] intToStr_loop.simps [of 0] itoa.simps [of n]
          flip: zmod_int)
  next
    case False
    then have "intToStr_loop (int (n div 10)) (digit_char (n mod 10) # buf) =
        itoa (n div 10) @ digit_char (n mod 10) # buf"
      using less.IH [of "n div 10"] by simp
    then show ?thesis
      using False less.prems
      by (simp add: intToStr_loop.simps [of "int n"] itoa.simps [of n] nat_mod_distrib zdiv_int)
  qed
qed

lemma intToStr_eq_itoa: "intToStr (int n) = itoa n"
proof (cases "n = 0")
  case True
  have "itoa 0 = ''0''"
    by code_simp
  with True show ?thesis
    by (simp add: intToStr_def)
qed (simp add: intToStr_def intToStr_loop_itoa)

end
