(* ===== verification/Comment_Strip.thy ===== *)
theory Comment_Strip
  imports Views Regex
begin

text \<open>
  The view with SQL block comments removed, \<open>src/internal/pipeline/comment_strip.go\<close>.  The
  bytes outside the comments are emitted with their own offsets, so the view is exact and every
  output byte is the source byte its table entry names.
\<close>

text \<open>The pattern \<open>/\*[\s\S]*?\*/\<close>; \<open>[\s\S]\<close> is the class of all runes.\<close>

definition sqliCommentRegex :: re where
  "sqliCommentRegex = seqs [lit ''/*'', lazy_star (ncls []), lit ''*/'']"

fun containsSlashStarComment :: "bytes \<Rightarrow> bool" where
  "containsSlashStarComment (a # b # bs) =
     (if a = 47 \<and> b = 42 then True else containsSlashStarComment (b # bs))"
| "containsSlashStarComment _ = False"

fun strip_loop :: "bytes \<Rightarrow> nat \<Rightarrow> (nat \<times> nat) list \<Rightarrow> (nat \<times> byte) list" where
  "strip_loop src pos [] = verbatim src pos (length src)"
| "strip_loop src pos ((a, b) # ms) = verbatim src pos a @ strip_loop src b ms"

definition sqliCommentStrip :: transform where
  "sqliCommentStrip src =
     (if \<not> containsSlashStarComment src then (src, None)
      else let matches = FindAllIndex sqliCommentRegex src in
           if matches = [] then (src, None)
           else case table_of (strip_loop src 0 matches) (length src) of
                  (out, idx) \<Rightarrow> if out = src then (src, None) else (out, Some idx))"

subsection \<open>The offset table\<close>

lemma sqliCommentRegex_nonnull: "\<not> nullable sqliCommentRegex"
  by (simp add: sqliCommentRegex_def lit_def cls_def)

lemma strip_loop_ascending:
  "matches_in pos (length src) ms \<Longrightarrow> pos \<le> length src \<Longrightarrow>
    ascending pos (length src) (strip_loop src pos ms)"
proof (induction ms arbitrary: pos)
  case Nil
  then show ?case by (simp add: ascending_verbatim)
next
  case (Cons m ms)
  obtain a b where m: "m = (a, b)" by (cases m)
  have le: "pos \<le> a" "a < b" "b \<le> length src" and "matches_in b (length src) ms"
    using Cons.prems by (simp_all add: m)
  then have "ascending a (length src) (strip_loop src b ms)"
    using Cons.IH [of b] by (auto intro: ascending_mono)
  then show ?case
    using le ascending_verbatim [of pos pos a a src]
    by (auto simp: m intro: ascending_append [of _ a])
qed

lemma strip_loop_faithful: "faithful src (strip_loop src pos ms)"
  by (induction src pos ms rule: strip_loop.induct) simp_all

lemma sqliCommentStrip_table:
  assumes "sqliCommentStrip src = (out, Some idx)"
  shows "table_of (strip_loop src 0 (FindAllIndex sqliCommentRegex src)) (length src) = (out, idx)"
  using assms by (auto simp: sqliCommentStrip_def Let_def split: prod.splits if_splits)

interpretation strip_view: exact_view sqliCommentStrip
proof
  fix src out idx
  assume "sqliCommentStrip src = (out, Some idx)"
  then have t: "table_of (strip_loop src 0 (FindAllIndex sqliCommentRegex src)) (length src) = (out, idx)"
    by (rule sqliCommentStrip_table)
  have "ascending 0 (length src) (strip_loop src 0 (FindAllIndex sqliCommentRegex src))"
    by (intro strip_loop_ascending FindAllIndex_in [OF sqliCommentRegex_nonnull]) simp
  then show "length idx = Suc (length out)" "sorted_wrt (<) idx" "last idx = length src"
    using table_of_ascending [OF _ t] by simp_all
qed

lemma sqliCommentStrip_faithful:
  "sqliCommentStrip src = (out, Some idx) \<Longrightarrow> k < length out \<Longrightarrow> out ! k = src ! (idx ! k)"
  by (rule table_of_faithful [OF strip_loop_faithful sqliCommentStrip_table])

end
