(* ===== verification/Stitch.thy ===== *)
theory Stitch
  imports Views Regex
begin

text \<open>
  The whitespace-stitched views, \<open>src/internal/pipeline/stitch.go\<close>: the region scanner, the
  two eligibility predicates and the emit loop.  Stitching drops spaces and tabs inside regions
  and nothing else; a stitched region holds eligible bytes only.
\<close>

subsection \<open>The code\<close>

definition minStitchLength :: nat where "minStitchLength = 12"
definition minStitchRatioPct :: nat where "minStitchRatioPct = 50"

definition isStitchEligible :: "byte \<Rightarrow> bool" where
  "isStitchEligible b \<longleftrightarrow>
     65 \<le> b \<and> b \<le> 90 \<or> 97 \<le> b \<and> b \<le> 122 \<or> 48 \<le> b \<and> b \<le> 57 \<or>
     b = 46 \<or> b = 95 \<or> b = 45 \<or> b = 43 \<or> b = 64"

definition isDigitOrSpecial :: "byte \<Rightarrow> bool" where
  "isDigitOrSpecial b \<longleftrightarrow>
     48 \<le> b \<and> b \<le> 57 \<or> b = 46 \<or> b = 95 \<or> b = 45 \<or> b = 43 \<or> b = 64"

definition is_blank :: "byte \<Rightarrow> bool" where
  "is_blank b \<longleftrightarrow> b = 32 \<or> b = 9"

definition containsSpaceOrTab :: "bytes \<Rightarrow> bool" where
  "containsSpaceOrTab data = list_ex is_blank data"

text \<open>The closure \<open>flush\<close>: the region that ends here, if there is one and it passes the gates.\<close>

definition stitch_flush :: "nat option \<Rightarrow> nat \<Rightarrow> nat \<Rightarrow> (nat \<times> nat) list" where
  "stitch_flush regionStart eligibleCount e =
     (case regionStart of
        None \<Rightarrow> []
      | Some s \<Rightarrow>
          if e - s \<ge> minStitchLength \<and> eligibleCount * 100 \<ge> (e - s) * minStitchRatioPct
          then [(s, e)] else [])"

text \<open>The position after the run of blanks at \<open>pos\<close>.\<close>

definition blanks_end :: "bytes \<Rightarrow> nat \<Rightarrow> nat" where
  "blanks_end src pos = pos + 1 + length (takeWhile is_blank (drop (pos + 1) src))"

function stitch_scan ::
  "(byte \<Rightarrow> bool) \<Rightarrow> bytes \<Rightarrow> nat \<Rightarrow> nat option \<Rightarrow> nat \<Rightarrow> (nat \<times> nat) list" where
  "stitch_scan eligible src pos regionStart eligibleCount =
     (if length src \<le> pos then stitch_flush regionStart eligibleCount pos
      else let b = src ! pos in
        if eligible b
        then stitch_scan eligible src (pos + 1)
               (if regionStart = None then Some pos else regionStart) (eligibleCount + 1)
        else if is_blank b
        then let ahead = blanks_end src pos;
                 joinable = (ahead - pos = 1 \<and> ahead < length src \<and> eligible (src ! ahead)
                             \<and> regionStart \<noteq> None) in
             if joinable then stitch_scan eligible src (pos + 1) regionStart eligibleCount
             else stitch_flush regionStart eligibleCount pos
                  @ stitch_scan eligible src ahead None 0
        else stitch_flush regionStart eligibleCount pos
             @ stitch_scan eligible src (pos + 1) None 0)"
  by pat_completeness auto
termination
  by (relation "measure (\<lambda>(e, src, pos, rs, c). length src - pos)") (auto simp: blanks_end_def)

declare stitch_scan.simps [simp del]

definition findStitchableRegions :: "bytes \<Rightarrow> (byte \<Rightarrow> bool) \<Rightarrow> (nat \<times> nat) list" where
  "findStitchableRegions src eligible = stitch_scan eligible src 0 None 0"

fun stitch_emit :: "bytes \<Rightarrow> nat \<Rightarrow> (nat \<times> nat) list \<Rightarrow> (nat \<times> byte) list" where
  "stitch_emit src pos [] = verbatim src pos (length src)"
| "stitch_emit src pos ((a, b) # rs) =
     verbatim src pos a @ filter (\<lambda>(k, c). \<not> is_blank c) (verbatim src a b)
     @ stitch_emit src b rs"

definition stitchByEligible :: "(byte \<Rightarrow> bool) \<Rightarrow> transform" where
  "stitchByEligible eligible src =
     (if \<not> containsSpaceOrTab src then (src, None)
      else let regions = findStitchableRegions src eligible in
           if regions = [] then (src, None)
           else case table_of (stitch_emit src 0 regions) (length src) of
                  (out, idx) \<Rightarrow> if out = src then (src, None) else (out, Some idx))"

definition whitespaceStitch :: transform where
  "whitespaceStitch = stitchByEligible isStitchEligible"

definition digitStitch :: transform where
  "digitStitch = stitchByEligible isDigitOrSpecial"

subsection \<open>Regions\<close>

lemma blanks_end_gt [simp]: "pos < blanks_end src pos"
  by (simp add: blanks_end_def)

lemma blanks_end_le: "pos < length src \<Longrightarrow> blanks_end src pos \<le> length src"
  using length_takeWhile_le [of is_blank "drop (pos + 1) src"] by (simp add: blanks_end_def)

text \<open>An open region starts at or before the current position.\<close>

definition open_ok :: "nat \<Rightarrow> nat option \<Rightarrow> nat \<Rightarrow> bool" where
  "open_ok lo rs pos \<longleftrightarrow> lo \<le> pos \<and> (\<forall>s. rs = Some s \<longrightarrow> lo \<le> s \<and> s \<le> pos)"

lemma flush_then_matches_in:
  "open_ok lo rs pos \<Longrightarrow> pos \<le> n \<Longrightarrow> matches_in pos n ms \<Longrightarrow>
    matches_in lo n (stitch_flush rs c pos @ ms)"
proof -
  assume o: "open_ok lo rs pos" and "pos \<le> n" "matches_in pos n ms"
  moreover have "matches_in lo n ms" if "lo \<le> pos"
    using \<open>matches_in pos n ms\<close> that by (rule matches_in_mono)
  ultimately show ?thesis
    by (auto simp: stitch_flush_def open_ok_def minStitchLength_def split: option.splits)
qed

lemma stitch_scan_matches_in:
  "open_ok lo rs pos \<Longrightarrow> pos \<le> length src \<Longrightarrow>
    matches_in lo (length src) (stitch_scan eligible src pos rs c)"
proof (induction eligible src pos rs c arbitrary: lo rule: stitch_scan.induct)
  case (1 eligible src pos rs c)
  note unfold = stitch_scan.simps [of eligible src pos rs c]
  show ?case
  proof (cases "length src \<le> pos")
    case True
    then show ?thesis
      using "1.prems" flush_then_matches_in [of lo rs pos "length src" "[]" c] by (simp add: unfold)
  next
    case False
    then have lt: "pos < length src" by simp
    let ?join = "blanks_end src pos - pos = 1 \<and> blanks_end src pos < length src \<and>
      eligible (src ! blanks_end src pos) \<and> rs \<noteq> None"
    consider (el) "eligible (src ! pos)"
      | (join) "\<not> eligible (src ! pos)" "is_blank (src ! pos)" ?join
      | (gap) "\<not> eligible (src ! pos)" "is_blank (src ! pos)" "\<not> ?join"
      | (other) "\<not> eligible (src ! pos)" "\<not> is_blank (src ! pos)"
      by blast
    then show ?thesis
    proof cases
      case el
      then show ?thesis
        using "1.IH"(1) [OF False refl el, of lo] "1.prems" lt
        by (auto simp: unfold open_ok_def)
    next
      case join
      then show ?thesis
        using "1.IH"(2) [OF False refl join(1,2) refl refl, of lo] "1.prems" lt
        by (auto simp: unfold open_ok_def)
    next
      case gap
      then have "matches_in (blanks_end src pos) (length src)
          (stitch_scan eligible src (blanks_end src pos) None 0)"
        using "1.IH"(3) [OF False refl gap(1,2) refl refl gap(3), of "blanks_end src pos"]
          blanks_end_le [OF lt] by (simp add: open_ok_def)
      then have "matches_in pos (length src) (stitch_scan eligible src (blanks_end src pos) None 0)"
        by (rule matches_in_mono) (simp add: less_imp_le)
      then show ?thesis
        using gap False flush_then_matches_in [OF "1.prems"] by (auto simp: unfold Let_def)
    next
      case other
      then have "matches_in (pos + 1) (length src) (stitch_scan eligible src (pos + 1) None 0)"
        using "1.IH"(4) [OF False refl other, of "pos + 1"] lt by (simp add: open_ok_def)
      then have "matches_in pos (length src) (stitch_scan eligible src (pos + 1) None 0)"
        by (rule matches_in_mono) simp
      then show ?thesis
        using other False flush_then_matches_in [OF "1.prems"] by (simp add: unfold)
    qed
  qed
qed

lemma regions_in: "matches_in 0 (length src) (findStitchableRegions src eligible)"
  unfolding findStitchableRegions_def
  by (rule stitch_scan_matches_in) (simp_all add: open_ok_def)

subsection \<open>The offset table\<close>

lemma stitch_emit_ascending:
  "matches_in pos (length src) rs \<Longrightarrow> pos \<le> length src \<Longrightarrow>
    ascending pos (length src) (stitch_emit src pos rs)"
proof (induction rs arbitrary: pos)
  case Nil
  then show ?case by (simp add: ascending_verbatim)
next
  case (Cons r rs)
  obtain a b where r: "r = (a, b)" by (cases r)
  have le: "pos \<le> a" "a < b" "b \<le> length src" and "matches_in b (length src) rs"
    using Cons.prems by (simp_all add: r)
  then have "ascending b (length src) (stitch_emit src b rs)"
    using Cons.IH by simp
  moreover have "ascending a b (filter (\<lambda>(k, c). \<not> is_blank c) (verbatim src a b))"
    by (simp add: ascending_filter ascending_verbatim)
  ultimately have "ascending a (length src)
      (filter (\<lambda>(k, c). \<not> is_blank c) (verbatim src a b) @ stitch_emit src b rs)"
    using le by (intro ascending_append [of _ b]) simp_all
  then show ?case
    using le ascending_verbatim [of pos pos a a src]
    by (auto simp: r intro: ascending_append [of _ a])
qed

lemma stitch_emit_faithful: "faithful src (stitch_emit src pos rs)"
  by (induction src pos rs rule: stitch_emit.induct) (simp_all add: faithful_filter)

lemma stitch_table:
  assumes "stitchByEligible eligible src = (out, Some idx)"
  shows "table_of (stitch_emit src 0 (findStitchableRegions src eligible)) (length src) = (out, idx)"
  using assms by (auto simp: stitchByEligible_def Let_def split: prod.splits if_splits)

interpretation stitch_view: exact_view "stitchByEligible eligible" for eligible
proof
  fix src out idx
  assume "stitchByEligible eligible src = (out, Some idx)"
  then have t: "table_of (stitch_emit src 0 (findStitchableRegions src eligible)) (length src) = (out, idx)"
    by (rule stitch_table)
  have "ascending 0 (length src) (stitch_emit src 0 (findStitchableRegions src eligible))"
    by (intro stitch_emit_ascending regions_in) simp
  then show "length idx = Suc (length out)" "sorted_wrt (<) idx" "last idx = length src"
    using table_of_ascending [OF _ t] by simp_all
qed

interpretation whitespace_view: exact_view whitespaceStitch
  unfolding whitespaceStitch_def by (rule stitch_view.exact_view_axioms)

interpretation digit_view: exact_view digitStitch
  unfolding digitStitch_def by (rule stitch_view.exact_view_axioms)

lemma stitch_faithful:
  "stitchByEligible eligible src = (out, Some idx) \<Longrightarrow> k < length out \<Longrightarrow> out ! k = src ! (idx ! k)"
  by (rule table_of_faithful [OF stitch_emit_faithful stitch_table])

subsection \<open>Only blanks are dropped\<close>

lemma verbatim_snd: "b \<le> length src \<Longrightarrow> map snd (verbatim src a b) = slice a b src"
  by (simp add: verbatim_def comp_def slice_simps)

lemma filter_snd: "map snd (filter (\<lambda>(k, c). P c) ps) = filter P (map snd ps)"
  by (induction ps) auto

lemma stitch_emit_nonblank:
  "matches_in pos (length src) rs \<Longrightarrow> pos \<le> length src \<Longrightarrow>
    filter (\<lambda>c. \<not> is_blank c) (map snd (stitch_emit src pos rs)) =
    filter (\<lambda>c. \<not> is_blank c) (drop pos src)"
proof (induction rs arbitrary: pos)
  case Nil
  then show ?case by (simp add: verbatim_snd slice_def)
next
  case (Cons r rs)
  obtain a b where r: "r = (a, b)" by (cases r)
  have le: "pos \<le> a" "a < b" "b \<le> length src" and m: "matches_in b (length src) rs"
    using Cons.prems by (simp_all add: r)
  have "drop pos src = slice pos a src @ slice a b src @ drop b src"
    using le by (simp add: slice_append_drop)
  then show ?case
    using Cons.IH [OF m le(3)] le by (simp add: r filter_snd verbatim_snd)
qed

end
