(* ===== verification/Pipeline.thy ===== *)
theory Pipeline
  imports Mask Decode Normalize Base64 Comment_Strip Stitch
begin

text \<open>
  The buffered pipeline, \<open>src/internal/pipeline/pipeline.go\<close>: scanner fan-out, the
  transformed passes with their offset mapping, the merge of findings, and \<open>Process\<close>.  The
  goroutines of \<open>ScanWith\<close> are modelled both as the sequential merge the function returns and
  as a step relation in which the scanners finish in any order.  The parameter \<open>nfkc\<close> is the
  Unicode normaliser that the \<open>Normalize\<close> view calls.
\<close>

subsection \<open>Construction\<close>

record pipeline =
  plScanners :: "scanner list"
  plTransformScanners :: "scanner list"
  plRedactor :: "redactor option"

definition pipeline_New :: "scanner list \<Rightarrow> redactor option \<Rightarrow> pipeline" where
  "pipeline_New scanners red =
     \<lparr>plScanners = scanners,
      plTransformScanners = filter (\<lambda>s. scAccepts s = Some True) scanners,
      plRedactor = red\<rparr>"

record pl_result =
  resData :: bytes
  resFindings :: "finding list"

subsection \<open>Fan-out\<close>

definition ScanWith ::
  "scanner list \<Rightarrow> bytes \<Rightarrow> hints \<Rightarrow> finding list \<times> go_error option" where
  "ScanWith scanners data h =
     (if data = [] \<or> scanners = [] then ([], None)
      else let results = map (\<lambda>s. scScan s data h) scanners in
           (concat (map fst results), errors_Join (map snd results)))"

text \<open>
  The goroutines: slot \<open>i\<close> of \<open>results\<close> is written once, by scanner \<open>i\<close>, at any moment
  before the \<open>WaitGroup\<close> is done.
\<close>

type_synonym scan_slots = "(finding list \<times> go_error option) option list"

inductive scan_step :: "scanner list \<Rightarrow> bytes \<Rightarrow> hints \<Rightarrow> scan_slots \<Rightarrow> scan_slots \<Rightarrow> bool"
  for scanners :: "scanner list" and data :: bytes and h :: hints where
  finish: "i < length scanners \<Longrightarrow> i < length slots \<Longrightarrow> slots ! i = None \<Longrightarrow>
    scan_step scanners data h slots (slots[i := Some (scScan (scanners ! i) data h)])"

inductive scan_run :: "scanner list \<Rightarrow> bytes \<Rightarrow> hints \<Rightarrow> scan_slots \<Rightarrow> bool"
  for scanners :: "scanner list" and data :: bytes and h :: hints where
  start: "scan_run scanners data h (replicate (length scanners) None)"
| step: "scan_run scanners data h slots \<Longrightarrow> scan_step scanners data h slots slots' \<Longrightarrow>
    scan_run scanners data h slots'"

inductive_cases scan_stepE: "scan_step scanners data h slots slots'"

definition wait_done :: "scan_slots \<Rightarrow> bool" where
  "wait_done slots = list_all (\<lambda>r. r \<noteq> None) slots"

definition gather :: "scan_slots \<Rightarrow> finding list \<times> go_error option" where
  "gather slots =
     (let results = List.map_filter id slots in
      (concat (map fst results), errors_Join (map snd results)))"

subsection \<open>Transformed passes\<close>

definition map_finding :: "nat list \<Rightarrow> finding \<Rightarrow> finding" where
  "map_finding origIdx f =
     f\<lparr>fStart := int (origIdx ! nat (fStart f)), fEnd := int (origIdx ! nat (fEnd f))\<rparr>"

definition map_findings :: "nat list \<Rightarrow> finding list \<Rightarrow> finding list" where
  "map_findings origIdx fs =
     map (map_finding origIdx)
       (filter (\<lambda>f. \<not> (fStart f < 0 \<or> fEnd f > int (length origIdx) - 1 \<or> fStart f \<ge> fEnd f)) fs)"

definition transformedPass ::
  "pipeline \<Rightarrow> bytes \<Rightarrow> hints \<Rightarrow> transform \<Rightarrow> finding list \<times> go_error option" where
  "transformedPass p data h transform =
     (case transform data of
        (transformed, None) \<Rightarrow> ([], None)
      | (transformed, Some origIdx) \<Rightarrow>
          if transformed = data then ([], None)
          else case ScanWith (plTransformScanners p) transformed h of
                 (fs, err) \<Rightarrow> (map_findings origIdx fs, err))"

definition overlapsExisting :: "finding list \<Rightarrow> finding \<Rightarrow> bool" where
  "overlapsExisting existing f =
     list_ex (\<lambda>e. fType e = fType f \<and> fStart e < fEnd f \<and> fStart f < fEnd e) existing"

fun mergeNew :: "finding list \<Rightarrow> finding list \<Rightarrow> finding list" where
  "mergeNew existing [] = existing"
| "mergeNew existing (f # extra) =
     (if \<not> overlapsExisting existing f then mergeNew (existing @ [f]) extra
      else mergeNew existing extra)"

text \<open>One guarded pass of \<open>Scan\<close>: run the transform, join the error, merge the findings.\<close>

definition scan_pass ::
  "pipeline \<Rightarrow> bytes \<Rightarrow> hints \<Rightarrow> transform
    \<Rightarrow> finding list \<times> go_error option \<Rightarrow> finding list \<times> go_error option" where
  "scan_pass p data h transform acc =
     (case acc of (findings, scanErr) \<Rightarrow>
        (case transformedPass p data h transform of
           (extra, err) \<Rightarrow> (mergeNew findings extra, errors_Join [scanErr, err])))"

definition pipeline_Scan ::
  "(bytes \<Rightarrow> bytes) \<Rightarrow> pipeline \<Rightarrow> bytes \<Rightarrow> hints \<Rightarrow> finding list \<times> go_error option" where
  "pipeline_Scan nfkc p data h =
     (if data = [] \<or> plScanners p = [] then ([], None)
      else let r0 = ScanWith (plScanners p) data h in
        if plTransformScanners p = [] then r0
        else let r1 = (if containsPercent data then scan_pass p data h urlDecode r0 else r0);
                 r2 = (if containsNonASCII data
                       then scan_pass p data h (nfkcNormalize nfkc) r1 else r1);
                 r3 = (if containsBase64Candidate data
                       then scan_pass p data h base64Decode r2 else r2);
                 r4 = (if containsSlashStarComment data
                       then scan_pass p data h sqliCommentStrip r3 else r3)
             in if containsSpaceOrTab data
                then scan_pass p data h digitStitch (scan_pass p data h whitespaceStitch r4)
                else r4)"

subsection \<open>Process\<close>

definition pipeline_Process ::
  "(bytes \<Rightarrow> bytes) \<Rightarrow> pipeline \<Rightarrow> bytes \<Rightarrow> hints \<Rightarrow> pl_result \<times> go_error option" where
  "pipeline_Process nfkc p data h =
     (case pipeline_Scan nfkc p data h of
        (findings, scanErr) \<Rightarrow>
          (case plRedactor p of
             None \<Rightarrow> (\<lparr>resData = data, resFindings = findings\<rparr>, scanErr)
           | Some red \<Rightarrow>
               if findings = [] then (\<lparr>resData = data, resFindings = findings\<rparr>, scanErr)
               else (case rdRedact red data findings of
                       Inl err \<Rightarrow> (\<lparr>resData = data, resFindings = findings\<rparr>,
                                   errors_Join [scanErr, Some err])
                     | Inr redacted \<Rightarrow> (\<lparr>resData = redacted, resFindings = findings\<rparr>, scanErr))))"

subsection \<open>Order of the goroutines\<close>

definition slots_ok :: "scanner list \<Rightarrow> bytes \<Rightarrow> hints \<Rightarrow> scan_slots \<Rightarrow> bool" where
  "slots_ok scanners data h slots \<longleftrightarrow>
     length slots = length scanners \<and>
     (\<forall>i<length slots. slots ! i = None \<or> slots ! i = Some (scScan (scanners ! i) data h))"

lemma scan_step_ok:
  "scan_step scanners data h slots slots' \<Longrightarrow> slots_ok scanners data h slots \<Longrightarrow>
    slots_ok scanners data h slots'"
  unfolding slots_ok_def by (elim scan_stepE) (simp add: nth_list_update)

lemma scan_run_ok: "scan_run scanners data h slots \<Longrightarrow> slots_ok scanners data h slots"
proof (induction rule: scan_run.induct)
  case start
  then show ?case by (simp add: slots_ok_def)
next
  case (step slots slots')
  then show ?case by (blast intro: scan_step_ok)
qed

lemma done_slots:
  assumes "slots_ok scanners data h slots" "wait_done slots"
  shows "slots = map (\<lambda>s. Some (scScan s data h)) scanners"
proof (rule nth_equalityI)
  show "length slots = length (map (\<lambda>s. Some (scScan s data h)) scanners)"
    using assms(1) by (simp add: slots_ok_def)
next
  fix i assume i: "i < length slots"
  then have "slots ! i \<noteq> None"
    using assms(2) unfolding wait_done_def list_all_length by blast
  then show "slots ! i = map (\<lambda>s. Some (scScan s data h)) scanners ! i"
    using assms(1) i unfolding slots_ok_def by (metis nth_map)
qed

lemma map_filter_Some [simp]: "List.map_filter id (map (\<lambda>x. Some (f x)) xs) = map f xs"
  by (induction xs) (simp_all add: map_filter_simps)

lemma gather_done:
  assumes "scan_run scanners data h slots" "wait_done slots" "data \<noteq> []" "scanners \<noteq> []"
  shows "gather slots = ScanWith scanners data h"
  using done_slots [OF scan_run_ok [OF assms(1)] assms(2)] assms(3,4)
  by (simp add: gather_def ScanWith_def)

text \<open>The wait always ends: every unfinished state has a step, and steps fill one slot each.\<close>

definition pending :: "scan_slots \<Rightarrow> nat" where
  "pending slots = length (filter (\<lambda>r. r = None) slots)"

lemma pending_update:
  "i < length slots \<Longrightarrow> slots ! i = None \<Longrightarrow> pending slots = Suc (pending (slots[i := Some r]))"
  by (induction slots arbitrary: i) (auto simp: pending_def nth_Cons' split: nat.splits)

lemma scan_step_pending:
  "scan_step scanners data h slots slots' \<Longrightarrow> pending slots' < pending slots"
  by (elim scan_stepE) (metis pending_update lessI)

lemma scan_step_progress:
  assumes "scan_run scanners data h slots" "\<not> wait_done slots"
  shows "\<exists>slots'. scan_step scanners data h slots slots'"
proof -
  obtain i where i: "i < length slots" "slots ! i = None"
    using assms(2) unfolding wait_done_def list_all_length by blast
  moreover have "length slots = length scanners"
    using scan_run_ok [OF assms(1)] by (simp add: slots_ok_def)
  ultimately show ?thesis
    using scan_step.finish [of i scanners slots data h] by auto
qed

subsection \<open>Merging findings\<close>

lemma mergeNew_prefix: "\<exists>new. mergeNew existing extra = existing @ new \<and> set new \<subseteq> set extra"
proof (induction existing extra rule: mergeNew.induct)
  case (1 existing)
  then show ?case by simp
next
  case (2 existing f extra)
  then show ?case by (cases "overlapsExisting existing f") fastforce+
qed

lemma mergeNew_set: "set (mergeNew existing extra) \<subseteq> set existing \<union> set extra"
  using mergeNew_prefix [of existing extra] by auto

lemma mergeNew_keeps: "set existing \<subseteq> set (mergeNew existing extra)"
  using mergeNew_prefix [of existing extra] by auto

text \<open>Findings of one type that do not overlap stay so when more are merged in.\<close>

definition no_clash :: "finding list \<Rightarrow> bool" where
  "no_clash fs \<longleftrightarrow> sorted_wrt (\<lambda>e f. \<not> (fType e = fType f \<and> overlaps e f)) fs"

lemma overlapsExisting_iff:
  "overlapsExisting existing f \<longleftrightarrow> (\<exists>e\<in>set existing. fType e = fType f \<and> overlaps e f)"
  by (simp add: overlapsExisting_def overlaps_def list_ex_iff)

lemma mergeNew_no_clash: "no_clash existing \<Longrightarrow> no_clash (mergeNew existing extra)"
  by (induction existing extra rule: mergeNew.induct)
    (auto simp: no_clash_def overlapsExisting_iff sorted_wrt_append)

text \<open>A finding that the merge drops overlaps one of its type that the merge keeps.\<close>

lemma mergeNew_dropped:
  "f \<in> set extra \<Longrightarrow> f \<notin> set (mergeNew existing extra) \<Longrightarrow>
    overlapsExisting (mergeNew existing extra) f"
proof (induction existing extra rule: mergeNew.induct)
  case (1 existing)
  then show ?case by simp
next
  case (2 existing g extra)
  show ?case
  proof (cases "overlapsExisting existing g")
    case True
    then show ?thesis
      using 2 mergeNew_keeps [of existing extra] by (auto simp: overlapsExisting_iff)
  next
    case False
    then show ?thesis
      using 2 mergeNew_keeps [of "existing @ [g]" extra] by (auto simp: subset_iff)
  qed
qed

subsection \<open>Offsets\<close>

text \<open>Offsets within an \<open>n\<close>-byte body; an empty range is allowed.\<close>

definition bounded_in :: "nat \<Rightarrow> finding \<Rightarrow> bool" where
  "bounded_in n f \<longleftrightarrow> 0 \<le> fStart f \<and> fStart f \<le> fEnd f \<and> fEnd f \<le> int n"

lemma in_range_within: "in_range n f \<Longrightarrow> bounded_in n f"
  by (simp add: in_range_def bounded_in_def)

lemma map_findings_mem:
  assumes "g \<in> set (map_findings idx fs)" and "length idx = Suc n"
  obtains f where "f \<in> set fs" "in_range n f" "g = map_finding idx f"
  using assms by (auto simp: map_findings_def in_range_def)

context offset_view
begin

lemma transformedPass_within:
  assumes "f \<in> set (fst (transformedPass p data h transform))"
  shows "bounded_in (length data) f"
proof -
  obtain out idx where t: "transform data = (out, Some idx)"
      and f: "f \<in> set (map_findings idx (fst (ScanWith (plTransformScanners p) out h)))"
    using assms by (auto simp: transformedPass_def split: prod.splits option.splits if_splits)
  obtain g where g: "in_range (length out) g" "f = map_finding idx g"
    using map_findings_mem [OF f table_length [OF t]] by blast
  then show ?thesis
    using mapped_range [OF t, of "nat (fStart g)" "nat (fEnd g)"]
    by (simp add: in_range_def bounded_in_def map_finding_def nat_le_iff nat_le_eq_zle)
qed

end

context exact_view
begin

lemma transformedPass_in_range:
  assumes "f \<in> set (fst (transformedPass p data h transform))"
  shows "in_range (length data) f"
proof -
  obtain out idx where t: "transform data = (out, Some idx)"
      and f: "f \<in> set (map_findings idx (fst (ScanWith (plTransformScanners p) out h)))"
    using assms by (auto simp: transformedPass_def split: prod.splits option.splits if_splits)
  obtain g where g: "in_range (length out) g" "f = map_finding idx g"
    using map_findings_mem [OF f exact_length [OF t]] by blast
  then have "idx ! nat (fStart g) < idx ! nat (fEnd g)"
    by (intro mapped_nonempty [OF t]) (simp_all add: in_range_def nat_le_iff)
  moreover have "bounded_in (length data) f"
    by (rule transformedPass_within [OF assms])
  ultimately show ?thesis
    by (simp add: in_range_def bounded_in_def g(2) map_finding_def)
qed

end

text \<open>The findings of a scan are those of the raw pass followed by what the passes add.\<close>

definition extends :: "finding list \<times> go_error option \<Rightarrow> finding list \<times> go_error option \<Rightarrow> bool" where
  "extends r r' \<longleftrightarrow> (\<exists>new. fst r' = fst r @ new)"

lemma extends_refl [simp]: "extends r r"
  by (simp add: extends_def)

lemma extends_trans: "extends r r' \<Longrightarrow> extends r' r'' \<Longrightarrow> extends r r''"
  by (auto simp: extends_def)

lemma extends_scan_pass: "extends r (scan_pass p data h t r)"
  using mergeNew_prefix [of "fst r" "fst (transformedPass p data h t)"]
  by (auto simp: scan_pass_def extends_def split: prod.splits)

lemma pass_cases:
  assumes "P r" and "\<And>r. P r \<Longrightarrow> P (scan_pass p data h t r)"
  shows "P (if c then scan_pass p data h t r else r)"
  using assms by simp

text \<open>
  The induction principle of \<open>Scan\<close>: what holds of the raw pass and is kept by each of the six
  passes holds of the result.
\<close>

lemma pipeline_Scan_induct:
  assumes raw: "P (ScanWith (plScanners p) data h)"
    and empty: "P ([], None)"
    and pass: "\<And>t r. t \<in> {urlDecode, nfkcNormalize nfkc, base64Decode, sqliCommentStrip,
        whitespaceStitch, digitStitch} \<Longrightarrow> P r \<Longrightarrow> P (scan_pass p data h t r)"
  shows "P (pipeline_Scan nfkc p data h)"
  unfolding pipeline_Scan_def Let_def using raw empty by (auto intro!: pass)

lemma fst_scan_pass:
  "fst (scan_pass p data h t r) = mergeNew (fst r) (fst (transformedPass p data h t))"
  by (simp add: scan_pass_def split: prod.splits)

lemma transforms_within:
  assumes "t \<in> {urlDecode, nfkcNormalize nfkc, base64Decode, sqliCommentStrip,
      whitespaceStitch, digitStitch}"
    and "f \<in> set (fst (transformedPass p data h t))"
  shows "bounded_in (length data) f"
  using assms
  by (auto intro: url_view.transformedPass_within nfkc_view.transformedPass_within
    base64_view.transformedPass_within strip_view.transformedPass_within
    whitespace_view.transformedPass_within digit_view.transformedPass_within)

lemma pipeline_Scan_within:
  assumes "\<And>f. f \<in> set (fst (ScanWith (plScanners p) data h)) \<Longrightarrow> bounded_in (length data) f"
    and "f \<in> set (fst (pipeline_Scan nfkc p data h))"
  shows "bounded_in (length data) f"
proof -
  have "\<forall>f\<in>set (fst (pipeline_Scan nfkc p data h)). bounded_in (length data) f"
  proof (rule pipeline_Scan_induct)
    fix t and r :: "finding list \<times> go_error option"
    assume t: "t \<in> {urlDecode, nfkcNormalize nfkc, base64Decode, sqliCommentStrip,
        whitespaceStitch, digitStitch}" and r: "\<forall>f\<in>set (fst r). bounded_in (length data) f"
    show "\<forall>f\<in>set (fst (scan_pass p data h t r)). bounded_in (length data) f"
      using r mergeNew_set [of "fst r"] transforms_within [OF t] by (fastforce simp: fst_scan_pass)
  qed (use assms(1) in simp_all)
  then show ?thesis using assms(2) by blast
qed

text \<open>What a scanner promises about its offsets.\<close>

definition scanner_ok :: "scanner \<Rightarrow> bool" where
  "scanner_ok s \<longleftrightarrow> (\<forall>data h. \<forall>f\<in>set (fst (scScan s data h)). in_range (length data) f)"

lemma ScanWith_in_range:
  assumes "\<And>s. s \<in> set scanners \<Longrightarrow> scanner_ok s" and "f \<in> set (fst (ScanWith scanners data h))"
  shows "in_range (length data) f"
  using assms by (fastforce simp: ScanWith_def scanner_ok_def split: if_splits)

lemma ScanWith_mem:
  "data \<noteq> [] \<Longrightarrow> s \<in> set scanners \<Longrightarrow> f \<in> set (fst (scScan s data h)) \<Longrightarrow>
    f \<in> set (fst (ScanWith scanners data h))"
  by (auto simp: ScanWith_def)

end
