(* ===== verification/Evasion.thy ===== *)
theory Evasion
  imports Pipeline
begin

text \<open>
  What the transformed passes of \<open>Scan\<close> are for: text that a scanner recognises is still found
  when the body carries it percent-encoded or in base64.  The theory follows a finding from the
  rewritten body through the offset table and the merges to the result of \<open>Scan\<close>, and states the
  properties of the buffered pipeline.
\<close>

subsection \<open>From a pass to the result\<close>

text \<open>A finding is reported when the list has it, or has an overlapping one of its type.\<close>

definition reported :: "finding list \<Rightarrow> finding \<Rightarrow> bool" where
  "reported fs f \<longleftrightarrow> f \<in> set fs \<or> overlapsExisting fs f"

lemma reported_mono: "reported fs f \<Longrightarrow> set fs \<subseteq> set gs \<Longrightarrow> reported gs f"
  by (auto simp: reported_def overlapsExisting_iff)

lemma reported_merge: "f \<in> set extra \<Longrightarrow> reported (mergeNew existing extra) f"
  using mergeNew_dropped by (auto simp: reported_def)

lemma reported_pass: "reported (fst r) f \<Longrightarrow> reported (fst (scan_pass p data h t r)) f"
  by (erule reported_mono) (simp add: fst_scan_pass mergeNew_keeps)

lemma reported_new:
  "f \<in> set (fst (transformedPass p data h t)) \<Longrightarrow> reported (fst (scan_pass p data h t r)) f"
  by (simp add: fst_scan_pass reported_merge)

lemma transformedPass_finds:
  assumes "t data = (out, Some idx)" "length idx = Suc (length out)" "out \<noteq> data"
    and "s \<in> set (plTransformScanners p)" "f \<in> set (fst (scScan s out h))" "in_range (length out) f"
  shows "map_finding idx f \<in> set (fst (transformedPass p data h t))"
proof -
  have "out \<noteq> []"
    using assms(6) by (auto simp: in_range_def)
  then have "f \<in> set (fst (ScanWith (plTransformScanners p) out h))"
    using assms(4,5) by (intro ScanWith_mem)
  then have "map_finding idx f \<in> set (map_findings idx (fst (ScanWith (plTransformScanners p) out h)))"
    using assms(2,6) by (auto simp: map_findings_def in_range_def)
  then show ?thesis
    using assms(1,3)
    by (cases "ScanWith (plTransformScanners p) out h") (simp add: transformedPass_def)
qed

text \<open>What one of the first passes adds, the later passes keep.\<close>

lemma Scan_reports_url:
  assumes "data \<noteq> []" "plScanners p \<noteq> []" "plTransformScanners p \<noteq> []" "containsPercent data"
    and "f \<in> set (fst (transformedPass p data h urlDecode))"
  shows "reported (fst (pipeline_Scan nfkc p data h)) f"
  using assms unfolding pipeline_Scan_def Let_def
  by (simp add: reported_pass reported_new)

lemma Scan_reports_base64:
  assumes "data \<noteq> []" "plScanners p \<noteq> []" "plTransformScanners p \<noteq> []"
    "containsBase64Candidate data"
    and "f \<in> set (fst (transformedPass p data h base64Decode))"
  shows "reported (fst (pipeline_Scan nfkc p data h)) f"
  using assms unfolding pipeline_Scan_def Let_def
  by (simp add: reported_pass reported_new)

lemma Scan_reports_strip:
  assumes "data \<noteq> []" "plScanners p \<noteq> []" "plTransformScanners p \<noteq> []"
    "containsSlashStarComment data"
    and "f \<in> set (fst (transformedPass p data h sqliCommentStrip))"
  shows "reported (fst (pipeline_Scan nfkc p data h)) f"
  using assms unfolding pipeline_Scan_def Let_def
  by (simp add: reported_pass reported_new)

lemma pipeline_New_simps [simp]:
  "plScanners (pipeline_New scs red) = scs"
  "plRedactor (pipeline_New scs red) = red"
  "s \<in> set (plTransformScanners (pipeline_New scs red)) \<longleftrightarrow> s \<in> set scs \<and> scAccepts s = Some True"
  by (simp_all add: pipeline_New_def)

subsection \<open>Percent-encoded bodies\<close>

text \<open>The offset at which the encoding of the \<open>k\<close>-th byte starts.\<close>

definition pct_offset :: "writing list \<Rightarrow> bytes \<Rightarrow> nat \<Rightarrow> nat" where
  "pct_offset ws bs k = length (pct_encode (take k ws) (take k bs))"

lemma pct_offset_simps [simp]:
  "pct_offset ws bs 0 = 0"
  "pct_offset (w # ws) (b # bs) (Suc k) = length (pct_byte w b) + pct_offset ws bs k"
  by (simp_all add: pct_offset_def)

text \<open>Each decoded byte comes from the offset at which its encoding starts.\<close>

lemma urlDecode_loop_origin:
  "pct_writing ws bs \<Longrightarrow> map fst (urlDecode_loop i (pct_encode ws bs)) =
    map (\<lambda>k. i + pct_offset ws bs k) [0..<length bs]"
proof (induction bs arbitrary: ws i)
  case (Cons b bs)
  then obtain v vs where "ws = v # vs" "b = 37 \<longrightarrow> v \<noteq> Literal" "pct_writing vs bs"
    unfolding pct_writing_Cons by blast
  then show ?case
    by (simp add: urlDecode_loop_writing Cons.IH map_upt_Suc ac_simps del: upt_Suc)
qed simp

lemma pct_offset_all: "pct_writing ws bs \<Longrightarrow> pct_offset ws bs (length bs) = length (pct_encode ws bs)"
  by (simp add: pct_offset_def pct_writing_def list_all2_lengthD)

lemma urlDecode_pct:
  assumes "pct_writing ws bs"
  shows "urlDecode (pct_encode ws bs) = (bs, Some (map (pct_offset ws bs) [0..<Suc (length bs)]))"
  using urlDecode_loop_pct [OF assms, of 0] urlDecode_loop_origin [OF assms, of 0]
  by (simp add: urlDecode_def table_of_def pct_offset_all [OF assms])

lemma length_pct_le: "pct_writing ws bs \<Longrightarrow> length bs \<le> length (pct_encode ws bs)"
proof (induction bs arbitrary: ws)
  case (Cons b bs)
  then obtain v vs where "ws = v # vs" "pct_writing vs bs"
    unfolding pct_writing_Cons by blast
  then show ?case
    using Cons.IH [of vs] by (cases v) simp_all
qed simp

lemma pct_escaped:
  "pct_writing ws bs \<Longrightarrow> set ws \<noteq> {Literal} \<Longrightarrow> bs \<noteq> [] \<Longrightarrow>
    containsPercent (pct_encode ws bs) \<and> length bs < length (pct_encode ws bs)"
proof (induction bs arbitrary: ws)
  case (Cons b bs)
  then obtain v vs where vs: "ws = v # vs" "pct_writing vs bs"
    unfolding pct_writing_Cons by blast
  show ?case
  proof (cases v)
    case Literal
    then have "bs \<noteq> []" "set vs \<noteq> {Literal}"
      using Cons.prems vs by auto
    then show ?thesis
      using Cons.IH [OF vs(2)] vs(1) Literal by (simp add: containsPercent_def)
  next
    case (Escaped hi lo)
    then show ?thesis
      using length_pct_le [OF vs(2)] vs(1) by (simp add: containsPercent_def)
  qed
qed simp

subsection \<open>Base64 bodies\<close>

lemma b64_longer: "bs \<noteq> [] \<Longrightarrow> length bs < length (b64_encode bs)"
proof -
  assume "bs \<noteq> []"
  then have "0 < length bs" by simp
  then show ?thesis
    unfolding length_b64_encode by presburger
qed

lemma div_before: "n mod 3 \<noteq> 0 \<Longrightarrow> n div 3 = (n - Suc 0) div 3"
  by presburger

text \<open>The offset that the table of an encoded text gives to its \<open>k\<close>-th byte.\<close>

definition b64_origin :: "bytes \<Rightarrow> nat \<Rightarrow> nat" where
  "b64_origin bs k = (if k < length bs then k div 3 * 4 else length (b64_encode bs))"

lemma base64Decode_origin:
  assumes "minBase64Run \<le> length bs" "isMostlyPrintable bs printableRatio"
  shows "base64Decode (b64_encode bs) = (bs, Some (map (b64_origin bs) [0..<Suc (length bs)]))"
  using base64Decode_encode [OF assms] by (simp add: b64_origin_def)

lemma containsBase64_encode:
  assumes "minBase64Run \<le> length bs" "isMostlyPrintable bs printableRatio"
  shows "containsBase64Candidate (b64_encode bs)"
  using base64Decode_encode [OF assms]
  by (auto simp: contains_iff_candidates base64Decode_def)

subsection \<open>Properties\<close>

text \<open>A scanner that reports a single occurrence of one byte, to evaluate the pipeline on.\<close>

definition byte_scanner :: "byte \<Rightarrow> scanner" where
  "byte_scanner x = \<lparr>scName = ''s'', scAccepts = Some True,
     scScan = (\<lambda>data h. (if x \<in> set data
       then [sample_finding (int (length (takeWhile (\<lambda>b. b \<noteq> x) data)))
               (int (Suc (length (takeWhile (\<lambda>b. b \<noteq> x) data))))] else [], None))\<rparr>"

definition no_hints :: hints where
  "no_hints = \<lparr>hContentType = [], hURL = [], hMethod = [], hDirection = 0\<rparr>"

text \<open>
  C6: Percent-encoding does not hide text from the scanners.  Let a scanner that accepts transformed
  input find something in a text, and let the body be any percent-encoding of the text: any choice,
  position by position, of bytes to escape that escapes at least one byte and every percent sign,
  with the digits in either case.  Then \<open>Scan\<close> reports the finding with exactly the offsets of the
  encoded range, or the result has a finding of the same type that overlaps that range.
\<close>

theorem percent_encoded_reported:
  assumes "pct_writing ws plain" "set ws \<noteq> {Literal}"
    and "s \<in> set scs" "scAccepts s = Some True"
    and "f \<in> set (fst (scScan s plain h))" "in_range (length plain) f"
  shows "reported (fst (pipeline_Scan nfkc (pipeline_New scs red) (pct_encode ws plain) h))
    (f\<lparr>fStart := int (pct_offset ws plain (nat (fStart f))),
       fEnd := int (pct_offset ws plain (nat (fEnd f)))\<rparr>)"
proof -
  let ?p = "pipeline_New scs red" and ?enc = "pct_encode ws plain"
  let ?idx = "map (pct_offset ws plain) [0..<Suc (length plain)]"
  have s: "s \<in> set (plTransformScanners ?p)"
    using assms(3,4) by simp
  have "plain \<noteq> []"
    using assms(6) by (auto simp: in_range_def)
  then have longer: "containsPercent ?enc" "length plain < length ?enc"
    using pct_escaped [OF assms(1,2)] by simp_all
  have "map_finding ?idx f \<in> set (fst (transformedPass ?p ?enc h urlDecode))"
    using longer by (intro transformedPass_finds [where s = s and out = plain]
      urlDecode_pct assms s) auto
  moreover have "?enc \<noteq> []" "plScanners ?p \<noteq> []"
    using longer assms(3) by auto
  moreover have "plTransformScanners ?p \<noteq> []"
    using s by (metis empty_iff list.set(1))
  ultimately have "reported (fst (pipeline_Scan nfkc ?p ?enc h)) (map_finding ?idx f)"
    using longer(1) by (intro Scan_reports_url) simp_all
  moreover have "nat (fStart f) \<le> length plain" "nat (fEnd f) \<le> length plain"
    using assms(6) by (auto simp: in_range_def)
  ultimately show ?thesis
    by (simp add: map_finding_def nth_append pct_offset_all [OF assms(1)] del: upt_Suc)
qed

text \<open>The bytes \<open>%\<close>, \<open>J\<close>, \<open>1\<close> written as \<open>%25%4a1\<close>.\<close>

theorem percent_encoded_reported_witness:
  "reported (fst (pipeline_Scan id (pipeline_New [byte_scanner 74] None)
      [37, 50, 53, 37, 52, 97, 49] no_hints)) (sample_finding 3 6)"
proof -
  let ?ws = "[Escaped Upper Lower, Escaped Upper Lower, Literal]"
  have enc: "pct_encode ?ws [37, 74, 49] = [37, 50, 53, 37, 52, 97, 49]"
    by code_simp
  have ok: "pct_writing ?ws [37, 74, 49]" "pct_offset ?ws [37, 74, 49] 1 = 3"
      "pct_offset ?ws [37, 74, 49] 2 = 6"
    by code_simp+
  show ?thesis
    using percent_encoded_reported [OF ok(1), of "byte_scanner 74" "[byte_scanner 74]"
        "sample_finding 1 2" no_hints id None] ok(2,3)
    unfolding enc by (simp add: byte_scanner_def in_range_def sample_finding_def)
qed

text \<open>
  C7: Nor does base64.  If a scanner that accepts transformed input finds something in a text of at
  least 16 mostly printable bytes, then \<open>Scan\<close> of the base64 form of the text reports it at the
  offsets the group table gives, or reports a finding of the same type that overlaps them.
\<close>

theorem base64_encoded_reported:
  assumes "minBase64Run \<le> length plain" "isMostlyPrintable plain printableRatio"
    and "s \<in> set scs" "scAccepts s = Some True"
    and "f \<in> set (fst (scScan s plain h))" "in_range (length plain) f"
  shows "reported (fst (pipeline_Scan nfkc (pipeline_New scs red) (b64_encode plain) h))
    (f\<lparr>fStart := int (b64_origin plain (nat (fStart f))), fEnd := int (b64_origin plain (nat (fEnd f)))\<rparr>)"
proof -
  let ?p = "pipeline_New scs red" and ?enc = "b64_encode plain"
  let ?idx = "map (b64_origin plain) [0..<Suc (length plain)]"
  have s: "s \<in> set (plTransformScanners ?p)"
    using assms(3,4) by simp
  have longer: "length plain < length ?enc"
    using assms(1) by (intro b64_longer) (auto simp: minBase64Run_def)
  have "map_finding ?idx f \<in> set (fst (transformedPass ?p ?enc h base64Decode))"
    using longer by (intro transformedPass_finds [where s = s and out = plain]
      base64Decode_origin assms s) auto
  moreover have "?enc \<noteq> []" "plScanners ?p \<noteq> []"
    using longer assms(3) by auto
  moreover have "plTransformScanners ?p \<noteq> []"
    using s by (metis empty_iff list.set(1))
  ultimately have "reported (fst (pipeline_Scan nfkc ?p ?enc h)) (map_finding ?idx f)"
    using containsBase64_encode [OF assms(1,2)] by (intro Scan_reports_base64)
  moreover have "nat (fStart f) \<le> length plain" "nat (fEnd f) \<le> length plain"
    using assms(6) by (auto simp: in_range_def)
  ultimately show ?thesis
    by (simp add: map_finding_def nth_append b64_origin_def del: upt_Suc)
qed

text \<open>A text of 24 letters with a digit in it.\<close>

definition sample_text :: bytes where
  "sample_text = replicate 12 65 @ [48] @ replicate 11 66"

lemma sample_text_ok:
  "minBase64Run \<le> length sample_text" "isMostlyPrintable sample_text printableRatio"
  "length sample_text = 24"
  by (simp_all add: sample_text_def minBase64Run_def isMostlyPrintable_def is_printable_def
      printableRatio_def)

lemma sample_text_digit: "fst (scScan (byte_scanner 48) sample_text h) = [sample_finding 12 13]"
proof -
  have "takeWhile (\<lambda>b. b \<noteq> 48) sample_text = replicate 12 65"
    unfolding sample_text_def by (subst takeWhile_append2) simp_all
  then show ?thesis
    by (simp add: byte_scanner_def) (simp add: sample_text_def)
qed

theorem base64_encoded_reported_witness:
  "reported (fst (pipeline_Scan id (pipeline_New [byte_scanner 48] None) (b64_encode sample_text) no_hints))
     (sample_finding 16 16)"
  using base64_encoded_reported [OF sample_text_ok(1,2), of "byte_scanner 48" "[byte_scanner 48]"
      "sample_finding 12 13" no_hints id None]
  by (simp add: sample_text_digit in_range_def sample_text_ok b64_origin_def)
    (simp add: byte_scanner_def sample_finding_def)

text \<open>
  C37: The offsets of a base64 finding do not straddle whole groups.  When a match ends inside a
  group of three bytes, its mapped end is the start of the four characters that encode its last
  bytes, so masking the mapped finding leaves those characters, and everything after them, in the
  output.
\<close>

theorem base64_tail_unmasked:
  assumes "minBase64Run \<le> length plain" "isMostlyPrintable plain printableRatio"
    and "in_range (length plain) f" "fEnd f < int (length plain)" "nat (fEnd f) mod 3 \<noteq> 0"
    and "base64Decode (b64_encode plain) = (plain, Some idx)"
  shows "fEnd (map_finding idx f) = int (b64_origin plain (nat (fEnd f) - 1))
    \<and> (\<exists>pre. mask_Redact r (b64_encode plain) [map_finding idx f] =
          Inr (pre @ drop (b64_origin plain (nat (fEnd f) - 1)) (b64_encode plain)))"
proof -
  let ?enc = "b64_encode plain" and ?b = "nat (fEnd f)" and ?g = "map_finding idx f"
  have idx: "idx = map (b64_origin plain) [0..<Suc (length plain)]"
    using base64Decode_origin [OF assms(1,2)] assms(6) by simp
  have b: "?b < length plain" "0 < ?b" "nat (fStart f) < ?b"
    using assms(3,4) by (auto simp: in_range_def)
  have same: "b64_origin plain ?b = b64_origin plain (?b - 1)"
    using b assms(5) by (auto simp: b64_origin_def div_before)
  have e: "fEnd ?g = int (b64_origin plain (?b - 1))"
    unfolding same [symmetric] using b by (simp add: map_finding_def idx nth_append del: upt_Suc)
  have le: "b64_origin plain (?b - 1) \<le> length ?enc"
    using b by (auto simp: b64_origin_def length_b64_encode intro!: div_le_mono)
  have "concat (map (mask_byte (placeholder r) ?enc [?g]) [b64_origin plain (?b - 1)..<length ?enc]) =
      map ((!) ?enc) [b64_origin plain (?b - 1)..<length ?enc]"
    by (rule concat_map_singletonI) (simp add: mask_byte_def covered_iff e)
  then have "mask_spec (placeholder r) ?enc [?g] =
      concat (map (mask_byte (placeholder r) ?enc [?g]) [0..<b64_origin plain (?b - 1)]) @
      drop (b64_origin plain (?b - 1)) ?enc"
    unfolding mask_spec_def upt_split [OF le0 le] by (simp add: drop_conv_nth)
  then show ?thesis
    using e by (simp add: mask_Redact_eq_spec)
qed

theorem base64_tail_unmasked_witness:
  "\<exists>idx pre. base64Decode (b64_encode sample_text) = (sample_text, Some idx)
    \<and> mask_Redact (mask_New ''*'') (b64_encode sample_text) [map_finding idx (sample_finding 11 13)] =
        Inr (pre @ drop 16 (b64_encode sample_text))"
proof -
  obtain idx where idx: "base64Decode (b64_encode sample_text) = (sample_text, Some idx)"
    using base64Decode_origin [OF sample_text_ok(1,2)] by blast
  have "\<exists>pre. mask_Redact (mask_New ''*'') (b64_encode sample_text) [map_finding idx (sample_finding 11 13)] =
      Inr (pre @ drop (b64_origin sample_text (nat (fEnd (sample_finding 11 13)) - 1)) (b64_encode sample_text))"
    using base64_tail_unmasked [OF sample_text_ok(1,2) _ _ _ idx, of "sample_finding 11 13"]
    by (simp add: in_range_def sample_finding_def sample_text_ok)
  then show ?thesis
    using idx by (auto simp: b64_origin_def sample_text_ok sample_finding_def)
qed

text \<open>
  The passes whose tables are strictly increasing (percent-decoding, comment stripping, white
  space stitching) only produce findings with valid, non-empty offsets in the original body.
\<close>

lemma exact_passes_in_range:
  assumes "t \<in> {urlDecode, sqliCommentStrip, whitespaceStitch, digitStitch}"
    and "f \<in> set (fst (transformedPass p data h t))"
  shows "in_range (length data) f"
  using assms
  by (auto intro: url_view.transformedPass_in_range strip_view.transformedPass_in_range
    whitespace_view.transformedPass_in_range digit_view.transformedPass_in_range)

text \<open>
  The pre-check for base64, a counter over the bytes, is true exactly when the candidate
  pattern matches somewhere, so skipping the pass when it fails never skips a decodable run.
\<close>

lemma base64_precheck_exact:
  "containsBase64Candidate data \<longleftrightarrow> FindAllIndex base64Candidate data \<noteq> []"
  by (rule contains_iff_candidates)

text \<open>
  C15: The goroutines of \<open>ScanWith\<close>.  However the scanners are scheduled, as long as some slot is
  empty a scanner can finish, every finish fills a slot, and once all have finished the gathered
  findings and errors are those of running the scanners one after another in their order.
\<close>

theorem scanwith_any_schedule:
  assumes "scan_run scanners data h slots" "data \<noteq> []" "scanners \<noteq> []"
  shows "if wait_done slots then gather slots = ScanWith scanners data h
    else (\<exists>slots'. scan_step scanners data h slots slots' \<and> pending slots' < pending slots)"
  using gather_done [OF assms(1) _ assms(2,3)] scan_step_progress [OF assms(1)] scan_step_pending
  by fastforce

theorem scanwith_any_schedule_witness:
  "if wait_done [None, Some ([sample_finding 0 1], None)]
   then gather [None, Some ([sample_finding 0 1], None)] = ScanWith [byte_scanner 1, byte_scanner 2] [2] no_hints
   else (\<exists>slots'. scan_step [byte_scanner 1, byte_scanner 2] [2] no_hints
      [None, Some ([sample_finding 0 1], None)] slots'
      \<and> pending slots' < pending [None, Some ([sample_finding 0 1], None)])"
proof -
  have "scan_run [byte_scanner 1, byte_scanner 2] [2] no_hints [None, Some ([sample_finding 0 1], None)]"
  proof (rule scan_run.step)
    show "scan_run [byte_scanner 1, byte_scanner 2] [2] no_hints [None, None]"
      using scan_run.start [of "[byte_scanner 1, byte_scanner 2]" "[2]" no_hints] by simp
    show "scan_step [byte_scanner 1, byte_scanner 2] [2] no_hints [None, None]
        [None, Some ([sample_finding 0 1], None)]"
      using scan_step.finish [of 1 "[byte_scanner 1, byte_scanner 2]" "[None, None]" "[2]" no_hints]
      by (simp add: byte_scanner_def)
  qed
  from scanwith_any_schedule [OF this] show ?thesis
    by simp
qed

text \<open>
  C28: The result of \<open>Scan\<close> starts with the findings of the raw pass, in the order of the scanners.
  A later pass adds a finding only if no finding of its type so far overlaps it, so whenever no two
  raw findings of one type overlap, no two findings of the result do.
\<close>

theorem scan_merges_without_clash:
  assumes "data \<noteq> []" "plScanners p \<noteq> []"
  shows "\<exists>new. fst (pipeline_Scan nfkc p data h) = fst (ScanWith (plScanners p) data h) @ new
    \<and> (no_clash (fst (ScanWith (plScanners p) data h)) \<longrightarrow>
        no_clash (fst (pipeline_Scan nfkc p data h)))"
proof -
  let ?raw = "ScanWith (plScanners p) data h"
  let ?P = "\<lambda>r. extends ?raw r \<and> (no_clash (fst ?raw) \<longrightarrow> no_clash (fst r))"
  have pass: "?P (scan_pass p data h t r)" if "?P r" for t r
    using that extends_scan_pass [of r p data h t] mergeNew_no_clash
    by (auto simp: fst_scan_pass intro: extends_trans)
  have "?P (pipeline_Scan nfkc p data h)"
    unfolding pipeline_Scan_def Let_def using assms
    by (simp add: pass pass_cases [where P = ?P] del: if_split)
  then show ?thesis
    by (auto simp: extends_def)
qed

theorem scan_merges_without_clash_witness:
  "\<exists>new. fst (pipeline_Scan id (pipeline_New [byte_scanner 7] None) [7, 37, 48, 55] no_hints) =
      [sample_finding 0 1] @ new
    \<and> no_clash (fst (pipeline_Scan id (pipeline_New [byte_scanner 7] None) [7, 37, 48, 55] no_hints))"
  using scan_merges_without_clash [of "[7, 37, 48, 55]" "pipeline_New [byte_scanner 7] None" id no_hints]
  by (simp add: ScanWith_def byte_scanner_def no_clash_def)

end
