(* ===== verification/Streaming.thy ===== *)
theory Streaming
  imports Pipeline
begin

text \<open>
  The stream processor, \<open>src/internal/pipeline/stream.go\<close>: a sliding window over the bytes
  read so far, a boundary that is pulled back from straddling findings, a ceiling on the buffer,
  and the loop of \<open>Pipe\<close>.  The source is the list of what each turn of the loop meets (a
  cancelled context, or the bytes and error of one \<open>Read\<close>); the destination is the list of its
  \<open>Write\<close> and \<open>Flush\<close> events, with a parameter that says which writes fail.  The parameter
  \<open>grow\<close> is the capacity \<open>append\<close> gives a slice that it reallocates.
\<close>

subsection \<open>Options\<close>

definition DefaultWindow :: int where
  "DefaultWindow = 4096"

record stream_opts =
  soScanners :: "scanner list"
  soRedactor :: "redactor option"
  soHints :: hints
  soWindow :: int
  soMaxBuffer :: int

definition NewStreamProcessor :: "stream_opts \<Rightarrow> stream_opts" where
  "NewStreamProcessor opts =
     (let o1 = (if soWindow opts \<le> 0 then opts\<lparr>soWindow := DefaultWindow\<rparr> else opts) in
      if soMaxBuffer o1 \<le> 0 \<or> soMaxBuffer o1 < soWindow o1
      then o1\<lparr>soMaxBuffer := wrap64 (4 * soWindow o1)\<rparr> else o1)"

subsection \<open>Source, destination and state\<close>

definition EOF :: go_error where
  "EOF = Sentinel ''EOF''"

datatype turn = Cancelled go_error | Read bytes "go_error option"

datatype out_event = Wrote bytes | Flushed

type_synonym writer = "out_event list \<Rightarrow> bytes \<Rightarrow> go_error option"

record stream_state =
  stBuf :: bytes
  stCap :: nat
  stOut :: "out_event list"

definition stream_start :: stream_state where
  "stream_start = \<lparr>stBuf = [], stCap = 0, stOut = []\<rparr>"

definition append_buf :: "(nat \<Rightarrow> nat \<Rightarrow> nat) \<Rightarrow> stream_state \<Rightarrow> bytes \<Rightarrow> stream_state" where
  "append_buf grow st bs =
     (let n = length (stBuf st) + length bs in
      st\<lparr>stBuf := stBuf st @ bs, stCap := (if n \<le> stCap st then stCap st else grow (stCap st) n)\<rparr>)"

subsection \<open>Operations\<close>

definition applyRedactor :: "stream_opts \<Rightarrow> bytes \<Rightarrow> finding list \<Rightarrow> go_error + bytes" where
  "applyRedactor s data findings =
     (case soRedactor s of
        None \<Rightarrow> Inr data
      | Some red \<Rightarrow>
          if findings = [] then Inr data
          else (case rdRedact red data findings of
                  Inl err \<Rightarrow> Inl (WrapErr ''stream: redactor: %w'' err)
                | Inr out \<Rightarrow> Inr out))"

definition pull_back :: "int \<Rightarrow> finding \<Rightarrow> int" where
  "pull_back flushable f =
     (if fStart f < flushable \<and> fEnd f > flushable
      then (if fStart f < flushable then fStart f else flushable)
      else flushable)"

definition flush_boundary :: "stream_opts \<Rightarrow> int \<Rightarrow> finding list \<Rightarrow> int" where
  "flush_boundary s n findings =
     (let flushable = foldl pull_back (n - soWindow s) findings in
      if flushable \<le> 0 \<and> n \<ge> soMaxBuffer s then n - soWindow s else flushable)"

definition write_out :: "writer \<Rightarrow> stream_state \<Rightarrow> bytes \<Rightarrow> go_error option \<times> stream_state" where
  "write_out wr st out =
     (case wr (stOut st) out of
        Some err \<Rightarrow> (Some (WrapErr ''stream: write: %w'' err), st)
      | None \<Rightarrow> (None, st\<lparr>stOut := stOut st @ [Wrote out]\<rparr>))"

definition flushPrefix ::
  "stream_opts \<Rightarrow> writer \<Rightarrow> stream_state \<Rightarrow> go_error option \<times> stream_state" where
  "flushPrefix s wr st =
     (let data = stBuf st; n = int (length data) in
      if n \<le> soWindow s then (None, st)
      else
        let findings = fst (ScanWith (soScanners s) data (soHints s));
            flushable = flush_boundary s n findings in
        if flushable \<le> 0 then (None, st)
        else
          case applyRedactor s (slice 0 (nat flushable) data)
                 (filter (\<lambda>f. fEnd f \<le> flushable) findings) of
            Inl err \<Rightarrow> (Some err, st)
          | Inr out \<Rightarrow>
              (case write_out wr st out of
                 (Some err, st') \<Rightarrow> (Some err, st')
               | (None, st') \<Rightarrow>
                   (None, st'\<lparr>stBuf := drop (nat flushable) data,
                              stCap := length data - nat flushable\<rparr>)))"

definition flushFinal ::
  "stream_opts \<Rightarrow> writer \<Rightarrow> stream_state \<Rightarrow> go_error option \<times> stream_state" where
  "flushFinal s wr st =
     (let buf = stBuf st in
      if buf = [] then (None, st)
      else
        case applyRedactor s buf (fst (ScanWith (soScanners s) buf (soHints s))) of
          Inl err \<Rightarrow> (Some err, st)
        | Inr out \<Rightarrow> write_out wr st out)"

definition http_flush :: "bool \<Rightarrow> stream_state \<Rightarrow> stream_state" where
  "http_flush flusher st = (if flusher then st\<lparr>stOut := stOut st @ [Flushed]\<rparr> else st)"

text \<open>The first half of a turn of \<open>Pipe\<close>: what happens to the bytes of a successful \<open>Read\<close>.\<close>

definition pipe_data ::
  "(nat \<Rightarrow> nat \<Rightarrow> nat) \<Rightarrow> stream_opts \<Rightarrow> writer \<Rightarrow> bool \<Rightarrow> bytes \<Rightarrow> stream_state
    \<Rightarrow> go_error option \<times> stream_state" where
  "pipe_data grow s wr flusher bs st =
     (if bs = [] then (None, st)
      else case flushPrefix s wr (append_buf grow st bs) of
             (Some err, st') \<Rightarrow> (Some err, st')
           | (None, st') \<Rightarrow>
               (None, if length (stBuf st') < stCap st' then http_flush flusher st' else st'))"

text \<open>\<open>Waiting\<close>: the loop has used up the turns given and would read again.\<close>

datatype outcome = Waiting stream_state | Returned "go_error option" stream_state

fun Pipe ::
  "(nat \<Rightarrow> nat \<Rightarrow> nat) \<Rightarrow> stream_opts \<Rightarrow> writer \<Rightarrow> bool \<Rightarrow> turn list \<Rightarrow> stream_state \<Rightarrow> outcome" where
  "Pipe grow s wr flusher [] st = Waiting st"
| "Pipe grow s wr flusher (Cancelled err # src) st = Returned (Some err) st"
| "Pipe grow s wr flusher (Read bs readErr # src) st =
     (case pipe_data grow s wr flusher bs st of
        (Some err, st1) \<Rightarrow> Returned (Some err) st1
      | (None, st1) \<Rightarrow>
          (case readErr of
             None \<Rightarrow> Pipe grow s wr flusher src st1
           | Some e \<Rightarrow>
               if errors_Is e EOF then
                 (case flushFinal s wr st1 of
                    (Some err, st2) \<Rightarrow> Returned (Some err) st2
                  | (None, st2) \<Rightarrow> Returned None (http_flush flusher st2))
               else Returned (Some (WrapErr ''stream: read: %w'' e)) st1))"


subsection \<open>The flush boundary\<close>

lemma pull_back_le: "pull_back b f \<le> b"
  by (simp add: pull_back_def)

lemma foldl_pull_back_le: "foldl pull_back b fs \<le> b"
proof (induction fs arbitrary: b)
  case (Cons f fs)
  then show ?case using pull_back_le [of b f] by (simp, meson order_trans)
qed simp

lemma flush_boundary_le: "flush_boundary s n fs \<le> n - soWindow s"
  using foldl_pull_back_le [of "n - soWindow s" fs] by (simp add: flush_boundary_def Let_def)

definition splits :: "int \<Rightarrow> finding \<Rightarrow> bool" where
  "splits b f \<longleftrightarrow> fStart f < b \<and> b < fEnd f"

text \<open>
  The finding \<open>f\<close> stands alone in a scan: whatever overlaps it is reported with the same range.
\<close>

definition alone :: "finding list \<Rightarrow> finding \<Rightarrow> bool" where
  "alone fs f \<longleftrightarrow>
     list_all (\<lambda>g. overlaps g f \<longrightarrow> fStart g = fStart f \<and> fEnd g = fEnd f) fs"

lemma pull_back_nochange: "\<not> splits b f \<Longrightarrow> pull_back b f = b"
  by (simp add: splits_def pull_back_def)


lemma pull_back_straddle: "splits b f \<Longrightarrow> pull_back b f = fStart f"
  by (simp add: splits_def pull_back_def)

lemma pull_back_no_split: "\<not> splits (pull_back b f) f"
  by (simp add: splits_def pull_back_def)

lemma alone_pull_back:
  assumes "alone (g # fs) f" "\<not> splits b f"
  shows "\<not> splits (pull_back b g) f"
  using assms by (auto simp: alone_def overlaps_def splits_def pull_back_def)

lemma foldl_alone_no_split:
  "alone fs f \<Longrightarrow> \<not> splits b f \<Longrightarrow> \<not> splits (foldl pull_back b fs) f"
proof (induction fs arbitrary: b)
  case (Cons g fs)
  then show ?case
    using alone_pull_back [OF Cons.prems] by (simp add: alone_def)
qed simp

lemma pull_back_splits_none:
  "alone fs f \<Longrightarrow> f \<in> set fs \<Longrightarrow> \<not> splits (foldl pull_back b fs) f"
proof (induction fs arbitrary: b)
  case (Cons g fs)
  then show ?case
    using foldl_alone_no_split [of fs f "pull_back b f"] pull_back_no_split [of b f]
    by (auto simp: alone_def)
qed simp

text \<open>A finding that stands alone and straddles the boundary is where the loop stops.\<close>

lemma foldl_alone_stays:
  "alone fs f \<Longrightarrow> fStart f < fEnd f \<Longrightarrow> foldl pull_back (fStart f) fs = fStart f"
proof (induction fs)
  case (Cons g fs)
  then have "pull_back (fStart f) g = fStart f"
    by (auto simp: alone_def overlaps_def pull_back_def)
  then show ?case using Cons by (simp add: alone_def)
qed simp

lemma foldl_alone_stops:
  "alone fs f \<Longrightarrow> f \<in> set fs \<Longrightarrow> splits b f \<Longrightarrow> foldl pull_back b fs = fStart f"
proof (induction fs)
  case (Cons g fs)
  have tail: "alone fs f" "fStart f < fEnd f"
    using Cons.prems by (auto simp: alone_def splits_def)
  show ?case
  proof (cases "splits b g")
    case True
    then have "overlaps g f"
      using Cons.prems(3) by (auto simp: splits_def overlaps_def)
    then have "pull_back b g = fStart f"
      using Cons.prems(1) True by (simp add: alone_def pull_back_straddle)
    then show ?thesis using foldl_alone_stays [OF tail] by simp
  next
    case False
    then show ?thesis
      using Cons tail(1) by (auto simp: pull_back_nochange)
  qed
qed simp

text \<open>
  The ceiling overrides the loop for such a finding only when it starts at the front of the buffer
  and reaches into the window.
\<close>

lemma flush_boundary_splits:
  assumes "alone fs f" "f \<in> set fs" "splits (flush_boundary s n fs) f"
  shows "fStart f \<le> 0 \<and> soMaxBuffer s \<le> n \<and> n - soWindow s < fEnd f"
proof -
  let ?b = "n - soWindow s"
  have forced: "foldl pull_back ?b fs \<le> 0" "soMaxBuffer s \<le> n" "splits ?b f"
    using assms(3) pull_back_splits_none [OF assms(1,2), of ?b]
    by (auto simp: flush_boundary_def Let_def split: if_splits)
  then show ?thesis
    using foldl_alone_stops [OF assms(1,2) forced(3)] by (simp add: splits_def)
qed

subsection \<open>What a flush does\<close>

lemma write_out_None:
  "write_out wr st out = (None, st') \<Longrightarrow> st' = st\<lparr>stOut := stOut st @ [Wrote out]\<rparr>"
  by (auto simp: write_out_def split: option.splits)


definition kept :: "stream_opts \<Rightarrow> bytes \<Rightarrow> bool" where
  "kept s data \<longleftrightarrow> int (length data) \<le> soWindow s \<or>
     flush_boundary s (int (length data)) (fst (ScanWith (soScanners s) data (soHints s))) \<le> 0"

lemma flushPrefix_None:
  assumes "flushPrefix s wr st = (None, st')"
  obtains (kept) "kept s (stBuf st)" "st' = st"
  | (flushed) fs b out where
      "fs = fst (ScanWith (soScanners s) (stBuf st) (soHints s))"
      "int b = flush_boundary s (int (length (stBuf st))) fs"
      "0 < b" "int b \<le> int (length (stBuf st)) - soWindow s" "soWindow s < int (length (stBuf st))"
      "applyRedactor s (slice 0 b (stBuf st)) (filter (\<lambda>f. fEnd f \<le> int b) fs) = Inr out"
      "st' = st\<lparr>stBuf := drop b (stBuf st), stCap := length (stBuf st) - b,
               stOut := stOut st @ [Wrote out]\<rparr>"
proof (cases "kept s (stBuf st)")
  case True
  then show thesis
    using assms kept by (auto simp: flushPrefix_def Let_def kept_def split: if_splits)
next
  case False
  let ?fs = "fst (ScanWith (soScanners s) (stBuf st) (soHints s))"
  let ?b = "flush_boundary s (int (length (stBuf st))) ?fs"
  have b: "0 < ?b" "soWindow s < int (length (stBuf st))"
    using False by (simp_all add: kept_def)
  then obtain out st1 where
    "applyRedactor s (slice 0 (nat ?b) (stBuf st)) (filter (\<lambda>f. fEnd f \<le> ?b) ?fs) = Inr out"
    "write_out wr st out = (None, st1)"
    "st' = st1\<lparr>stBuf := drop (nat ?b) (stBuf st), stCap := length (stBuf st) - nat ?b\<rparr>"
    using assms
    by (auto simp: flushPrefix_def Let_def split: if_splits sum.splits prod.splits option.splits)
  then show thesis
    using b flush_boundary_le [of s "int (length (stBuf st))" ?fs]
    by (intro flushed [of ?fs "nat ?b" out]) (auto dest!: write_out_None)
qed


lemma flushFinal_None:
  assumes "flushFinal s wr st = (None, st')"
  obtains (empty) "stBuf st = []" "st' = st"
  | (final) out where "stBuf st \<noteq> []"
      "applyRedactor s (stBuf st) (fst (ScanWith (soScanners s) (stBuf st) (soHints s))) = Inr out"
      "st' = st\<lparr>stOut := stOut st @ [Wrote out]\<rparr>"
  using assms
  by (auto simp: flushFinal_def Let_def dest: write_out_None split: if_splits sum.splits)

text \<open>A full buffer always shrinks: at the ceiling something is written or the call fails.\<close>

lemma kept_below_ceiling:
  "kept s data \<Longrightarrow> int (length data) \<le> soWindow s \<or> int (length data) < soMaxBuffer s"
  by (auto simp: kept_def flush_boundary_def Let_def split: if_splits)


subsection \<open>Invariants of the loop\<close>

text \<open>The bytes the loop has read when it asks for more or meets the end of the source.\<close>

fun received :: "turn list \<Rightarrow> bytes" where
  "received [] = []"
| "received (Cancelled err # src) = []"
| "received (Read bs None # src) = bs @ received src"
| "received (Read bs (Some e) # src) = bs"

text \<open>
  An invariant relates the options, the bytes read so far and the state.  It holds at the start
  and is kept by each of the three things a turn does; the locale carries it through \<open>Pipe\<close>.
\<close>

locale stream_invariant =
  fixes Inv :: "stream_opts \<Rightarrow> bytes \<Rightarrow> stream_state \<Rightarrow> bool"
  assumes inv_start: "Inv s [] stream_start"
    and inv_append: "Inv s inp st \<Longrightarrow> Inv s (inp @ bs) (append_buf grow st bs)"
    and inv_flush: "Inv s inp st \<Longrightarrow> flushPrefix s wr st = (None, st') \<Longrightarrow> Inv s inp st'"
    and inv_http: "Inv s inp st \<Longrightarrow> Inv s inp (http_flush flusher st)"
begin

lemma inv_pipe_data:
  assumes "Inv s inp st" "pipe_data grow s wr flusher bs st = (None, st')"
  shows "Inv s (inp @ bs) st'"
proof (cases "bs = []")
  case True
  then show ?thesis using assms by (simp add: pipe_data_def)
next
  case False
  then obtain st1 where st1: "flushPrefix s wr (append_buf grow st bs) = (None, st1)"
      "st' = (if length (stBuf st1) < stCap st1 then http_flush flusher st1 else st1)"
    using assms(2) by (auto simp: pipe_data_def split: prod.splits option.splits)
  then have "Inv s (inp @ bs) st1"
    by (blast intro: inv_flush inv_append assms(1))
  then show ?thesis
    by (simp add: st1(2) inv_http)
qed

lemma inv_Pipe_from:
  assumes "Inv s inp st"
  shows "(case Pipe grow s wr flusher src st of
            Waiting st' \<Rightarrow> Inv s (inp @ received src) st'
          | Returned (Some e) st' \<Rightarrow> True
          | Returned None st' \<Rightarrow>
              (\<exists>st1 st2. Inv s (inp @ received src) st1 \<and> flushFinal s wr st1 = (None, st2) \<and>
                st' = http_flush flusher st2))"
  using assms
proof (induction src arbitrary: inp st)
  case Nil
  then show ?case by simp
next
  case (Cons t src)
  show ?case
  proof (cases t)
    case (Cancelled err)
    then show ?thesis by simp
  next
    case (Read bs readErr)
    obtain err st1 where d: "pipe_data grow s wr flusher bs st = (err, st1)"
      by fastforce
    show ?thesis
    proof (cases err)
      case None
      then have inv: "Inv s (inp @ bs) st1"
        using d Cons.prems inv_pipe_data by blast
      show ?thesis
        using Cons.IH [OF inv] inv d None Read
        by (auto split: option.splits prod.splits if_splits outcome.splits)
    qed (use d Read in simp)
  qed
qed

lemma inv_Waiting:
  "Pipe grow s wr flusher src stream_start = Waiting st \<Longrightarrow> Inv s (received src) st"
  using inv_Pipe_from [OF inv_start, where s = s and grow = grow and wr = wr and
      flusher = flusher and src = src] by simp

lemma inv_Returned:
  assumes "Pipe grow s wr flusher src stream_start = Returned None st"
  obtains st1 st2 where "Inv s (received src) st1" "flushFinal s wr st1 = (None, st2)"
    "st = http_flush flusher st2"
  using inv_Pipe_from [OF inv_start, where s = s and grow = grow and wr = wr and
      flusher = flusher and src = src] assms by auto

end

subsubsection \<open>Conservation\<close>

definition writes :: "out_event list \<Rightarrow> bytes list" where
  "writes evs = List.map_filter (\<lambda>e. case e of Wrote w \<Rightarrow> Some w | Flushed \<Rightarrow> None) evs"

lemma writes_simps [simp]:
  "writes [] = []" "writes (evs @ [Flushed]) = writes evs"
  "writes (evs @ [Wrote w]) = writes evs @ [w]"
  by (simp_all add: writes_def map_filter_def)

lemma writes_http_flush [simp]: "writes (stOut (http_flush flusher st)) = writes (stOut st)"
  by (simp add: http_flush_def)

lemma http_flush_buf [simp]: "stBuf (http_flush flusher st) = stBuf st"
  by (simp add: http_flush_def)

lemma append_buf_simps [simp]:
  "stBuf (append_buf grow st bs) = stBuf st @ bs" "stOut (append_buf grow st bs) = stOut st"
  by (simp_all add: append_buf_def Let_def)

text \<open>
  The writes so far are the redactions of consecutive segments of what was read, and the buffer is
  the rest.
\<close>

type_synonym segments = "(bytes \<times> finding list) list"

definition explains :: "stream_opts \<Rightarrow> segments \<Rightarrow> bytes list \<Rightarrow> bool" where
  "explains s segs ws \<longleftrightarrow> list_all2 (\<lambda>(seg, fs) w. applyRedactor s seg fs = Inr w) segs ws"

lemma explains_snoc:
  "explains s segs ws \<Longrightarrow> applyRedactor s seg fs = Inr w \<Longrightarrow>
    explains s (segs @ [(seg, fs)]) (ws @ [w])"
  by (simp add: explains_def list_all2_appendI)

definition conserved :: "stream_opts \<Rightarrow> bytes \<Rightarrow> stream_state \<Rightarrow> bool" where
  "conserved s inp st \<longleftrightarrow>
     (\<exists>segs. concat (map fst segs) @ stBuf st = inp \<and> explains s segs (writes (stOut st)))"

lemma slice_0_drop: "slice 0 b xs @ drop b xs = xs"
  by (simp add: slice_def)

interpretation conserve: stream_invariant conserved
proof
  fix s :: stream_opts and grow :: "nat \<Rightarrow> nat \<Rightarrow> nat" and wr :: writer
    and inp bs :: bytes and st st' :: stream_state
  show "conserved s [] stream_start"
    by (auto simp: conserved_def stream_start_def explains_def intro: exI [of _ "[]"])
  show "conserved s inp st \<Longrightarrow> conserved s (inp @ bs) (append_buf grow st bs)"
    by (auto simp: conserved_def)
  assume inv: "conserved s inp st" and f: "flushPrefix s wr st = (None, st')"
  from f show "conserved s inp st'"
  proof (cases rule: flushPrefix_None)
    case kept
    then show ?thesis using inv by simp
  next
    case (flushed fs b out)
    obtain segs where segs: "concat (map fst segs) @ stBuf st = inp"
        "explains s segs (writes (stOut st))"
      using inv by (auto simp: conserved_def)
    let ?segs = "segs @ [(slice 0 b (stBuf st), filter (\<lambda>f. fEnd f \<le> int b) fs)]"
    have "explains s ?segs (writes (stOut st'))"
      using explains_snoc [OF segs(2) flushed(6)] flushed(7) by simp
    moreover have "concat (map fst ?segs) @ stBuf st' = inp"
      using segs(1) flushed(7) by (simp add: slice_0_drop)
    ultimately show ?thesis
      unfolding conserved_def by blast
  qed
qed (simp add: conserved_def)


subsubsection \<open>The window\<close>

definition window_kept :: "stream_opts \<Rightarrow> bytes \<Rightarrow> stream_state \<Rightarrow> bool" where
  "window_kept s inp st \<longleftrightarrow>
     min (int (length inp)) (soWindow s) \<le> int (length (stBuf st)) \<and>
     (int (length inp) \<le> soWindow s \<longrightarrow> stBuf st = inp \<and> writes (stOut st) = [])"

interpretation window: stream_invariant window_kept
proof
  fix s :: stream_opts and grow :: "nat \<Rightarrow> nat \<Rightarrow> nat" and wr :: writer
    and inp bs :: bytes and st st' :: stream_state
  show "window_kept s [] stream_start"
    by (simp add: window_kept_def stream_start_def)
  show "window_kept s inp st \<Longrightarrow> window_kept s (inp @ bs) (append_buf grow st bs)"
    by (auto simp: window_kept_def)
  assume inv: "window_kept s inp st" and f: "flushPrefix s wr st = (None, st')"
  from f show "window_kept s inp st'"
  proof (cases rule: flushPrefix_None)
    case kept
    then show ?thesis using inv by simp
  next
    case (flushed fs b out)
    then show ?thesis using inv by (auto simp: window_kept_def)
  qed
qed (simp add: window_kept_def)

subsubsection \<open>Detection across chunks\<close>

text \<open>
  The occurrence at \<open>[a, b)\<close> of the whole stream fits the window and, in every stretch of the
  stream that contains it, is reported and is overlapped by no finding of another range.
\<close>

definition recognised :: "stream_opts \<Rightarrow> bytes \<Rightarrow> nat \<Rightarrow> nat \<Rightarrow> bool" where
  "recognised s whole a b \<longleftrightarrow>
     a < b \<and> b \<le> length whole \<and> int (b - a) \<le> soWindow s \<and>
     int (b - a) + soWindow s \<le> soMaxBuffer s \<and>
     list_all (\<lambda>lo. list_all (\<lambda>hi.
        let fs = fst (ScanWith (soScanners s) (slice lo hi whole) (soHints s)) in
        list_ex (\<lambda>f. fStart f = int a - int lo \<and> fEnd f = int b - int lo \<and> alone fs f) fs)
        [b..<Suc (length whole)]) [0..<Suc a]"

lemma recognised_bounds:
  assumes "recognised s whole a b"
  shows "a < b" "b \<le> length whole" "int (b - a) \<le> soWindow s"
    "int (b - a) + soWindow s \<le> soMaxBuffer s"
  using assms unfolding recognised_def by blast+

lemma recognised_finding:
  assumes "recognised s whole a b" "lo \<le> a" "b \<le> hi" "hi \<le> length whole"
    and fs: "fs = fst (ScanWith (soScanners s) (slice lo hi whole) (soHints s))"
  obtains f where "f \<in> set fs" "fStart f = int a - int lo" "fEnd f = int b - int lo" "alone fs f"
proof -
  have "lo \<in> set [0..<Suc a]" "hi \<in> set [b..<Suc (length whole)]"
    using assms(2-4) by auto
  then have "list_ex (\<lambda>f. fStart f = int a - int lo \<and> fEnd f = int b - int lo \<and> alone fs f) fs"
    using assms(1) unfolding recognised_def list_all_iff fs Let_def by blast
  then show thesis
    using that by (auto simp: list_ex_iff)
qed

text \<open>One segment contains the occurrence, and the redactor is told about it.\<close>

definition caught :: "segments \<Rightarrow> nat \<Rightarrow> nat \<Rightarrow> bool" where
  "caught segs a b \<longleftrightarrow>
     (\<exists>pre seg fs post f. segs = pre @ (seg, fs) # post \<and> f \<in> set fs \<and> in_range (length seg) f \<and>
        fStart f + int (length (concat (map fst pre))) = int a \<and>
        fEnd f + int (length (concat (map fst pre))) = int b)"

lemma caught_append: "caught segs a b \<Longrightarrow> caught (segs @ segs') a b"
  unfolding caught_def by (metis append.assoc append_Cons)

lemma caught_last:
  assumes "f \<in> set fs" "in_range (length seg) f"
    "fStart f + int (length (concat (map fst segs))) = int a"
    "fEnd f + int (length (concat (map fst segs))) = int b"
  shows "caught (segs @ [(seg, fs)]) a b"
  unfolding caught_def using assms by blast

definition unbroken :: "segments \<Rightarrow> nat \<Rightarrow> nat \<Rightarrow> bool" where
  "unbroken segs a b \<longleftrightarrow> length (concat (map fst segs)) \<le> a \<or> caught segs a b"

definition detecting :: "stream_opts \<Rightarrow> bytes \<Rightarrow> stream_state \<Rightarrow> bool" where
  "detecting s inp st \<longleftrightarrow>
     (\<forall>whole a b. (\<exists>rest. whole = inp @ rest) \<longrightarrow> recognised s whole a b \<longrightarrow>
        (\<exists>segs. concat (map fst segs) @ stBuf st = inp \<and> explains s segs (writes (stOut st)) \<and>
           unbroken segs a b))"

text \<open>The step of the invariant: where the boundary falls relative to the occurrence.\<close>

lemma boundary_unbroken:
  assumes rec: "recognised s whole a b"
    and whole: "whole = (done @ data) @ rest"
    and before: "length done \<le> a"
    and fs: "fs = fst (ScanWith (soScanners s) data (soHints s))"
    and bnd: "int k = flush_boundary s (int (length data)) fs"
      "int k \<le> int (length data) - soWindow s" "soWindow s < int (length data)"
  shows "length done + k \<le> a \<or>
    (\<exists>f\<in>set fs. fEnd f \<le> int k \<and> in_range k f \<and> fStart f + int (length done) = int a \<and>
      fEnd f + int (length done) = int b)"
proof -
  let ?lo = "length done" and ?hi = "length done + length data"
  have data: "slice ?lo ?hi whole = data"
    by (simp add: whole slice_def)
  have ab: "a < b" "int (b - a) \<le> soWindow s" "int (b - a) + soWindow s \<le> soMaxBuffer s"
    using recognised_bounds [OF rec] by blast+
  show ?thesis
  proof (cases "b \<le> ?hi")
    case True
    moreover have "fs = fst (ScanWith (soScanners s) (slice ?lo ?hi whole) (soHints s))"
      by (simp add: data fs)
    ultimately obtain f where f: "f \<in> set fs" "fStart f = int a - int ?lo"
        "fEnd f = int b - int ?lo" "alone fs f"
      using recognised_finding [OF rec before, of ?hi fs] whole by auto
    have "splits (int k) f \<Longrightarrow> fStart f \<le> 0 \<and> soMaxBuffer s \<le> int (length data) \<and>
        int (length data) - soWindow s < fEnd f"
      using flush_boundary_splits [OF f(4,1)] by (simp only: bnd(1))
    then have "\<not> splits (int k) f"
      using f(2,3) ab before by linarith
    then have "fEnd f \<le> int k \<or> int k \<le> fStart f"
      unfolding splits_def by linarith
    then show ?thesis
    proof
      assume "fEnd f \<le> int k"
      then show ?thesis
        using f ab(1) before unfolding in_range_def by (intro disjI2 bexI [of _ f]) linarith+
    qed (use f(2) in linarith)
  next
    case False
    then show ?thesis using bnd(2) ab by linarith
  qed
qed


lemma detecting_flush:
  assumes inv: "detecting s inp st" and f: "flushPrefix s wr st = (None, st')"
  shows "detecting s inp st'"
  using f
proof (cases rule: flushPrefix_None)
  case kept
  then show ?thesis using inv by simp
next
  case (flushed fs k out)
  show ?thesis
    unfolding detecting_def
  proof (intro allI impI)
    fix whole a b
    assume "\<exists>rest. whole = inp @ rest" and rec: "recognised s whole a b"
    then obtain rest segs where whole: "whole = inp @ rest"
      and segs: "concat (map fst segs) @ stBuf st = inp" "explains s segs (writes (stOut st))"
        "unbroken segs a b"
      using inv unfolding detecting_def by blast
    define new where "new = (slice 0 k (stBuf st), filter (\<lambda>f. fEnd f \<le> int k) fs)"
    have len: "length (fst new) = k"
      using flushed(4) recognised_bounds(3) [OF rec] by (simp add: new_def slice_def)
    have "unbroken (segs @ [new]) a b"
    proof (cases "caught segs a b")
      case False
      then have "length (concat (map fst segs)) \<le> a"
        using segs(3) by (simp add: unbroken_def)
      from boundary_unbroken [OF rec _ this flushed(1,2,4,5), of rest]
      consider "length (concat (map fst segs)) + k \<le> a" | f where "f \<in> set fs" "fEnd f \<le> int k"
          "in_range k f" "fStart f + int (length (concat (map fst segs))) = int a"
          "fEnd f + int (length (concat (map fst segs))) = int b"
        using whole segs(1) by auto
      then show ?thesis
      proof cases
        case 1
        then show ?thesis by (simp add: unbroken_def len)
      next
        case 2
        then have "caught (segs @ [new]) a b"
          unfolding new_def by (intro caught_last [of f]) (use len in \<open>auto simp: new_def\<close>)
        then show ?thesis by (simp add: unbroken_def)
      qed
    qed (simp add: unbroken_def caught_append)
    moreover have "explains s (segs @ [new]) (writes (stOut st'))"
      using explains_snoc [OF segs(2) flushed(6)] flushed(7) by (simp add: new_def)
    moreover have "concat (map fst (segs @ [new])) @ stBuf st' = inp"
      using segs(1) flushed(7) by (simp add: new_def slice_0_drop)
    ultimately show "\<exists>segs. concat (map fst segs) @ stBuf st' = inp \<and>
        explains s segs (writes (stOut st')) \<and> unbroken segs a b"
      by blast
  qed
qed

interpretation detect: stream_invariant detecting
proof
  fix s :: stream_opts and grow :: "nat \<Rightarrow> nat \<Rightarrow> nat" and wr :: writer
    and inp bs :: bytes and st st' :: stream_state
  show "detecting s [] stream_start"
    by (auto simp: detecting_def stream_start_def explains_def unbroken_def intro: exI [of _ "[]"])
  show "detecting s inp st \<Longrightarrow> detecting s (inp @ bs) (append_buf grow st bs)"
    by (fastforce simp: detecting_def)
  show "detecting s inp st \<Longrightarrow> flushPrefix s wr st = (None, st') \<Longrightarrow> detecting s inp st'"
    by (rule detecting_flush)
qed (simp add: detecting_def)

lemma final_caught:
  assumes rec: "recognised s whole a b"
    and segs: "concat (map fst segs) @ buf = whole" "unbroken segs a b"
  shows "caught (segs @ [(buf, fst (ScanWith (soScanners s) buf (soHints s)))]) a b"
proof (cases "caught segs a b")
  case False
  let ?lo = "length (concat (map fst segs))"
  have lo: "?lo \<le> a"
    using False segs(2) by (simp add: unbroken_def)
  have "b \<le> length whole" "a < b"
    using recognised_bounds [OF rec] by blast+
  moreover have "buf = slice ?lo (length whole) whole"
    by (simp add: slice_def segs(1) [symmetric])
  ultimately obtain f where "f \<in> set (fst (ScanWith (soScanners s) buf (soHints s)))"
      "fStart f = int a - int ?lo" "fEnd f = int b - int ?lo"
    using recognised_finding [OF rec lo _ order_refl refl] by metis
  moreover have "length whole = ?lo + length buf"
    by (simp add: segs(1) [symmetric])
  ultimately show ?thesis
    using lo \<open>a < b\<close> \<open>b \<le> length whole\<close>
    by (intro caught_last [of f]) (auto simp: in_range_def)
qed (simp add: caught_append)

lemma Pipe_detects:
  assumes run: "Pipe grow s wr flusher src stream_start = Returned None st"
    and rec: "recognised s (received src) a b"
  shows "\<exists>segs. concat (map fst segs) = received src \<and> explains s segs (writes (stOut st)) \<and>
    caught segs a b"
proof -
  obtain st1 st2 where d: "detecting s (received src) st1"
      "flushFinal s wr st1 = (None, st2)" "st = http_flush flusher st2"
    using run by (rule detect.inv_Returned)
  obtain segs where segs: "concat (map fst segs) @ stBuf st1 = received src"
      "explains s segs (writes (stOut st1))" "unbroken segs a b"
    using d(1) rec unfolding detecting_def by (metis append_Nil2)
  from d(2) show ?thesis
  proof (cases rule: flushFinal_None)
    case empty
    have "a < b" "b \<le> length (received src)"
      using recognised_bounds [OF rec] by blast+
    then have "caught segs a b"
      using segs(1,3) empty by (auto simp: unbroken_def)
    then show ?thesis
      using segs empty d(3) by auto
  next
    case (final out)
    let ?segs = "segs @ [(stBuf st1, fst (ScanWith (soScanners s) (stBuf st1) (soHints s)))]"
    have "explains s ?segs (writes (stOut st))"
      using explains_snoc [OF segs(2) final(2)] final(3) d(3) by simp
    moreover have "concat (map fst ?segs) = received src"
      using segs(1) by simp
    ultimately show ?thesis
      using final_caught [OF rec segs(1,3)] by blast
  qed
qed


subsection \<open>Results of the loop\<close>

lemma explains_no_redactor:
  "soRedactor s = None \<Longrightarrow> explains s segs ws \<Longrightarrow> ws = map fst segs"
  by (induction segs arbitrary: ws) (auto simp: explains_def list_all2_Cons1 applyRedactor_def)

lemma Pipe_conserves:
  assumes run: "Pipe grow s wr flusher src stream_start = Returned None st"
  shows "\<exists>segs. concat (map fst segs) = received src \<and> explains s segs (writes (stOut st))"
proof -
  obtain st1 st2 where d: "conserved s (received src) st1"
      "flushFinal s wr st1 = (None, st2)" "st = http_flush flusher st2"
    using run by (rule conserve.inv_Returned)
  then obtain segs where segs: "concat (map fst segs) @ stBuf st1 = received src"
      "explains s segs (writes (stOut st1))"
    by (auto simp: conserved_def)
  from d(2) show ?thesis
  proof (cases rule: flushFinal_None)
    case empty
    then show ?thesis using segs d(3) by auto
  next
    case (final out)
    let ?segs = "segs @ [(stBuf st1, fst (ScanWith (soScanners s) (stBuf st1) (soHints s)))]"
    have "explains s ?segs (writes (stOut st))"
      using explains_snoc [OF segs(2) final(2)] final(3) d(3) by simp
    moreover have "concat (map fst ?segs) = received src"
      using segs(1) by simp
    ultimately show ?thesis by blast
  qed
qed

lemma Pipe_identity:
  assumes "Pipe grow s wr flusher src stream_start = Returned None st" "soRedactor s = None"
  shows "concat (writes (stOut st)) = received src"
  using Pipe_conserves [OF assms(1)] explains_no_redactor [OF assms(2)] by metis

lemma Pipe_one_shot:
  assumes run: "Pipe grow s wr flusher src stream_start = Returned None st"
    and short: "int (length (received src)) \<le> soWindow s" and ne: "received src \<noteq> []"
  shows "\<exists>out. writes (stOut st) = [out] \<and>
    applyRedactor s (received src)
      (fst (ScanWith (soScanners s) (received src) (soHints s))) = Inr out"
proof -
  obtain st1 st2 where d: "window_kept s (received src) st1"
      "flushFinal s wr st1 = (None, st2)" "st = http_flush flusher st2"
    using run by (rule window.inv_Returned)
  then have st1: "stBuf st1 = received src" "writes (stOut st1) = []"
    using short by (simp_all add: window_kept_def)
  from d(2) show ?thesis
    by (cases rule: flushFinal_None) (use st1 d(3) ne in simp_all)
qed

subsubsection \<open>The loop returns\<close>

fun terminated :: "turn list \<Rightarrow> bool" where
  "terminated [] = False"
| "terminated (Cancelled err # src) = True"
| "terminated (Read bs None # src) = terminated src"
| "terminated (Read bs (Some e) # src) = True"

lemma Pipe_returns:
  "terminated src \<Longrightarrow> \<exists>err st'. Pipe grow s wr flusher src st = Returned err st'"
  by (induction src arbitrary: st rule: terminated.induct)
    (auto split: option.splits prod.splits)

text \<open>A redactor that keeps its contract and a writer that accepts everything.\<close>

definition reliable :: "stream_opts \<Rightarrow> bool" where
  "reliable s \<longleftrightarrow> (\<forall>red. soRedactor s = Some red \<longrightarrow> redactor_contract (rdRedact red))"

definition accepting :: writer where
  "accepting evs w = None"

lemma reliable_applyRedactor:
  assumes "reliable s"
  obtains out where "applyRedactor s data fs = Inr out"
proof (cases "soRedactor s")
  case None
  then show ?thesis using that by (simp add: applyRedactor_def)
next
  case (Some red)
  then obtain out where "rdRedact red data fs = Inr out"
    using assms redactor_contract.redact_total unfolding reliable_def by blast
  then show ?thesis
    using that [of "if fs = [] then data else out"] Some by (simp add: applyRedactor_def)
qed

lemma flushPrefix_succeeds:
  assumes "reliable s"
  shows "\<exists>st'. flushPrefix s accepting st = (None, st')"
proof -
  let ?fs = "fst (ScanWith (soScanners s) (stBuf st) (soHints s))"
  let ?b = "flush_boundary s (int (length (stBuf st))) ?fs"
  obtain out where "applyRedactor s (slice 0 (nat ?b) (stBuf st)) (filter (\<lambda>f. fEnd f \<le> ?b) ?fs)
      = Inr out"
    using reliable_applyRedactor [OF assms] .
  then show ?thesis
    by (simp add: flushPrefix_def Let_def write_out_def accepting_def)
qed

lemma flushFinal_succeeds:
  assumes "reliable s"
  shows "\<exists>st'. flushFinal s accepting st = (None, st')"
proof -
  obtain out where "applyRedactor s (stBuf st)
      (fst (ScanWith (soScanners s) (stBuf st) (soHints s))) = Inr out"
    using reliable_applyRedactor [OF assms] .
  then show ?thesis
    by (simp add: flushFinal_def Let_def write_out_def accepting_def)
qed

lemma pipe_data_succeeds:
  assumes "reliable s"
  shows "\<exists>st'. pipe_data grow s accepting flusher bs st = (None, st')"
  using flushPrefix_succeeds [OF assms, of "append_buf grow st bs"]
  by (auto simp: pipe_data_def)

lemma Pipe_completes:
  assumes "reliable s"
  shows "\<exists>st'. Pipe grow s accepting flusher (map (\<lambda>bs. Read bs None) chunks @ [Read bs (Some EOF)]) st
    = Returned None st'"
proof (induction chunks arbitrary: st)
  case Nil
  obtain st1 where "pipe_data grow s accepting flusher bs st = (None, st1)"
    using pipe_data_succeeds [OF assms] by blast
  moreover obtain st2 where "flushFinal s accepting st1 = (None, st2)"
    using flushFinal_succeeds [OF assms] by blast
  ultimately show ?case by (simp add: EOF_def)
next
  case (Cons c chunks)
  obtain st1 where "pipe_data grow s accepting flusher c st = (None, st1)"
    using pipe_data_succeeds [OF assms] by blast
  then show ?case using Cons by simp
qed

lemma received_chunks:
  "received (map (\<lambda>bs. Read bs None) chunks @ [Read bs (Some e)]) = concat chunks @ bs"
  by (induction chunks) simp_all

lemma Pipe_last_flush:
  assumes "Pipe grow s wr flusher src st = Returned None st'"
  shows "\<exists>evs. stOut st' = evs @ (if flusher then [Flushed] else [])"
  using assms
proof (induction src arbitrary: st)
  case (Cons t src)
  then show ?case
    by (cases t) (auto simp: http_flush_def split: prod.splits option.splits if_splits)
qed simp

subsubsection \<open>Writes are final\<close>












subsubsection \<open>Explicit flushes\<close>

text \<open>
  A turn that writes leaves a buffer whose length is its capacity, so the test before
  \<open>flusher.Flush()\<close> fails whatever \<open>append\<close> did: a write in mid-stream is never followed by a flush.
\<close>

lemma pipe_data_events:
  assumes "pipe_data grow s wr flusher bs st = (None, st')"
  shows "stOut st' = stOut st \<or> stOut st' = stOut st @ [Flushed] \<or>
    (\<exists>w. stOut st' = stOut st @ [Wrote w])"
proof (cases "bs = []")
  case True
  then show ?thesis using assms by (simp add: pipe_data_def)
next
  case False
  then obtain st1 where st1: "flushPrefix s wr (append_buf grow st bs) = (None, st1)"
      "st' = (if length (stBuf st1) < stCap st1 then http_flush flusher st1 else st1)"
    using assms by (auto simp: pipe_data_def split: prod.splits option.splits)
  from st1(1) show ?thesis
  proof (cases rule: flushPrefix_None)
    case kept
    then show ?thesis using st1(2) by (simp add: http_flush_def)
  next
    case (flushed fs b out)
    then have "length (stBuf st1) = stCap st1" "stOut st1 = stOut st @ [Wrote out]"
      by simp_all
    then show ?thesis using st1(2) by simp
  qed
qed


subsection \<open>Sample streams\<close>

definition sample_scanner :: scanner where
  "sample_scanner =
     \<lparr>scName = ''sample'', scAccepts = None,
      scScan = (\<lambda>data h. (map (\<lambda>(a, b). sample_finding (int a) (int b))
        (FindAllIndex (seqs [cls [(1, 1)], cls [(2, 2)]]) data), None))\<rparr>"

definition sample_hints :: hints where
  "sample_hints = \<lparr>hContentType = [], hURL = [], hMethod = [], hDirection = DirectionResponse\<rparr>"

definition sample_opts :: stream_opts where
  "sample_opts =
     \<lparr>soScanners = [sample_scanner], soRedactor = Some (mask_api (mask_New ''*'')),
      soHints = sample_hints, soWindow = 2, soMaxBuffer = 8\<rparr>"

definition sample_source :: "turn list" where
  "sample_source = [Read [3, 1] None, Read [2, 3] None, Read [3] (Some EOF)]"

definition exact_grow :: "nat \<Rightarrow> nat \<Rightarrow> nat" where
  "exact_grow c n = n"

definition sample_end :: stream_state where
  "sample_end = \<lparr>stBuf = [3, 3], stCap = 2,
     stOut = [Wrote [3], Wrote [42], Wrote [3, 3], Flushed]\<rparr>"

lemma sample_run:
  "Pipe exact_grow sample_opts accepting True sample_source stream_start = Returned None sample_end"
  "received sample_source = [3, 1, 2, 3, 3]"
  "writes (stOut sample_end) = [[3], [42], [3, 3]]"
  by code_simp+




subsection \<open>Properties\<close>

text \<open>
  C3: Detection across chunk boundaries.  Take an occurrence of at most \<open>Window\<close> bytes whose
  length and the window together do not exceed the ceiling, and which every stretch of the stream
  that contains it reports at the same place, with no finding of another range overlapping it.
  Then, however the source is cut into reads, a completed run hands the occurrence to the redactor
  whole, in one of the consecutive segments whose redactions are the output.
\<close>

theorem stream_detects:
  assumes "Pipe grow s wr flusher src stream_start = Returned None st"
    and "recognised s (received src) a b"
  shows "\<exists>segs. concat (map fst segs) = received src \<and> explains s segs (writes (stOut st)) \<and>
    caught segs a b"
  using assms by (rule Pipe_detects)

lemma stream_detects_witness:
  "\<exists>segs. concat (map fst segs) = [3, 1, 2, 3, 3] \<and>
    explains sample_opts segs [[3], [42], [3, 3]] \<and> caught segs 1 3"
proof -
  have "recognised sample_opts (received sample_source) 1 3"
    unfolding sample_run by code_simp
  then show ?thesis
    using stream_detects [OF sample_run(1), of 1 3] unfolding sample_run by blast
qed

text \<open>
  C4: Conservation.  The output of a completed run is the redaction, one write per segment, of
  consecutive segments that together are exactly the bytes read.
\<close>

theorem stream_conserves:
  assumes "Pipe grow s wr flusher src stream_start = Returned None st"
  shows "\<exists>segs. concat (map fst segs) = received src \<and> explains s segs (writes (stOut st))"
  using assms by (rule Pipe_conserves)

lemma stream_conserves_witness:
  "\<exists>segs. concat (map fst segs) = [3, 1, 2, 3, 3] \<and>
    explains sample_opts segs [[3], [42], [3, 3]]"
  using stream_conserves [OF sample_run(1)] unfolding sample_run .

text \<open>
  Without a redactor a completed run copies the source unchanged, whatever the scanners
  report.
\<close>

lemma stream_identity:
  assumes "Pipe grow s wr flusher src stream_start = Returned None st" "soRedactor s = None"
  shows "concat (writes (stOut st)) = received src"
  using assms by (rule Pipe_identity)

text \<open>
  A stream that fits in the window is redacted as one body: the single write is what the
  redactor makes of all the bytes and the findings of one scan over them, however they arrived.
\<close>

lemma stream_one_shot:
  assumes "Pipe grow s wr flusher src stream_start = Returned None st"
    and "int (length (received src)) \<le> soWindow s" and "received src \<noteq> []"
  shows "\<exists>out. writes (stOut st) = [out] \<and>
    applyRedactor s (received src)
      (fst (ScanWith (soScanners s) (received src) (soHints s))) = Inr out"
  using assms by (rule Pipe_one_shot)

text \<open>
  C17: Termination with the whole output.  With a redactor that keeps its contract and a destination
  that accepts every write, a source that ends with EOF is piped to the end without an error,
  whatever the scanners report; the writes are the redactions of consecutive segments that together
  are all the bytes of the source, and the last event is a flush when the destination has one.
\<close>

theorem stream_completes:
  assumes "reliable s"
  shows "\<exists>st segs evs. Pipe grow s accepting flusher
      (map (\<lambda>bs. Read bs None) chunks @ [Read bs (Some EOF)]) stream_start = Returned None st \<and>
    concat (map fst segs) = concat chunks @ bs \<and> explains s segs (writes (stOut st)) \<and>
    stOut st = evs @ (if flusher then [Flushed] else [])"
proof -
  let ?src = "map (\<lambda>bs. Read bs None) chunks @ [Read bs (Some EOF)]"
  obtain st where run: "Pipe grow s accepting flusher ?src stream_start = Returned None st"
    using Pipe_completes [OF assms] by blast
  obtain segs where "concat (map fst segs) = received ?src" "explains s segs (writes (stOut st))"
    using Pipe_conserves [OF run] by blast
  moreover obtain evs where "stOut st = evs @ (if flusher then [Flushed] else [])"
    using Pipe_last_flush [OF run] by blast
  ultimately show ?thesis
    using run unfolding received_chunks by blast
qed

lemma stream_completes_witness:
  "\<exists>st segs evs. Pipe exact_grow sample_opts accepting True
      (map (\<lambda>bs. Read bs None) [[3, 1], [2, 3]] @ [Read [3] (Some EOF)]) stream_start =
      Returned None st \<and>
    concat (map fst segs) = [3, 1, 2, 3, 3] \<and> explains sample_opts segs (writes (stOut st)) \<and>
    stOut st = evs @ [Flushed]"
proof -
  have "reliable sample_opts"
    by (simp add: reliable_def sample_opts_def mask_api_def mask_rc.redactor_contract_axioms)
  then show ?thesis
    using stream_completes [of sample_opts exact_grow True "[[3, 1], [2, 3]]" "[3]"] by simp
qed

text \<open>
  C18: The buffer cannot be pinned.  When a flush leaves the buffer as it was, the buffer is within
  the window or below the ceiling; in every other case a call that does not fail writes a non-empty
  prefix and keeps exactly the rest.
\<close>

theorem flush_progress:
  assumes "flushPrefix s wr st = (None, st')" "soWindow s < int (length (stBuf st))"
    "soMaxBuffer s \<le> int (length (stBuf st))"
  shows "\<exists>b out. 0 < b \<and> int b \<le> int (length (stBuf st)) - soWindow s \<and>
    stBuf st' = drop b (stBuf st) \<and> stOut st' = stOut st @ [Wrote out]"
  using assms(1)
proof (cases rule: flushPrefix_None)
  case kept
  then show ?thesis using kept_below_ceiling [OF kept(1)] assms(2,3) by simp
next
  case (flushed fs b out)
  then show ?thesis by auto
qed

lemma flush_progress_witness:
  "\<exists>b out. 0 < b \<and> int b \<le> int (length [1, 2, 1, 2, 3 :: byte]) - soWindow sample_opts \<and>
    [1, 2, 3] = drop b [1, 2, 1, 2, 3 :: byte] \<and> [Wrote [42]] = [] @ [Wrote out]"
proof -
  let ?s = "sample_opts\<lparr>soMaxBuffer := 4\<rparr>" and ?st = "\<lparr>stBuf = [1, 2, 1, 2, 3], stCap = 5, stOut = []\<rparr>"
  have "flushPrefix ?s accepting ?st = (None, \<lparr>stBuf = [1, 2, 3], stCap = 3, stOut = [Wrote [42]]\<rparr>)"
    by code_simp
  moreover have "soWindow ?s = 2" "soMaxBuffer ?s = 4" "soWindow sample_opts = 2"
    by (simp_all add: sample_opts_def)
  ultimately show ?thesis
    using flush_progress [of ?s accepting ?st] by fastforce
qed

text \<open>
  The boundary does not split a finding that no finding of another range overlaps: the finding ends
  before it or starts after it, or it starts at the front of a buffer that has reached the ceiling
  and reaches into the window.
\<close>

lemma boundary_keeps_findings_whole:
  assumes "alone fs f" "f \<in> set fs"
  shows "fEnd f \<le> flush_boundary s n fs \<or> flush_boundary s n fs \<le> fStart f \<or>
    fStart f \<le> 0 \<and> soMaxBuffer s \<le> n \<and> n - soWindow s < fEnd f"
  using flush_boundary_splits [OF assms, of s n] unfolding splits_def by linarith



text \<open>
  A turn that writes is never followed by an explicit flush: \<open>flushPrefix\<close> leaves a buffer
  whose length is its capacity, so the guard of \<open>flusher.Flush()\<close> is false exactly when there
  is something to flush, however \<open>append\<close> grows slices.
\<close>

lemma write_never_flushed:
  assumes "pipe_data grow s wr flusher bs st = (None, st')"
    "stOut st' = stOut st @ evs" "Wrote w \<in> set evs"
  shows "Flushed \<notin> set evs"
  using pipe_data_events [OF assms(1)] assms(2,3) by auto

end
