(* ===== verification/Registry.thy ===== *)
theory Registry
  imports Api "HOL-Library.List_Lexorder" "HOL-Library.Char_ord"
begin

text \<open>
  The two runtime registries, \<open>src/internal/scanner/registry.go\<close> and
  \<open>src/internal/redactor/registry.go\<close>.  A registry is a Go map from names to values, kept as
  an association list whose order stands for the unspecified iteration order of the map.  The
  locale \<open>registry\<close> is the contract \<open>cmd/tg-proxy\<close> builds on; both registries
  interpret it.  An argument \<open>None\<close> is the nil interface value.
\<close>

subsection \<open>Scanners\<close>

record scanner_registry =
  scanners :: "(string \<times> scanner) list"

definition scanner_NewRegistry :: scanner_registry where
  "scanner_NewRegistry = \<lparr>scanners = []\<rparr>"

definition scanner_Register ::
  "scanner option \<Rightarrow> scanner_registry \<Rightarrow> go_error option \<times> scanner_registry" where
  "scanner_Register arg r =
     (case arg of
        None \<Rightarrow> (Some (GoErr ''scanner: nil scanner'' []), r)
      | Some s \<Rightarrow>
          let name = scName s in
          if name = [] then (Some (GoErr ''scanner: empty name'' []), r)
          else if map_of (scanners r) name \<noteq> None
          then (Some (GoErr ''scanner: %q already registered'' [name]), r)
          else (None, r\<lparr>scanners := (name, s) # scanners r\<rparr>))"

definition scanner_Get :: "string \<Rightarrow> scanner_registry \<Rightarrow> scanner option" where
  "scanner_Get name r = map_of (scanners r) name"

definition scanner_List :: "scanner_registry \<Rightarrow> scanner list" where
  "scanner_List r = sort_key scName (map snd (scanners r))"

subsection \<open>Redactors\<close>

record redactor_registry =
  redactors :: "(string \<times> redactor) list"

definition redactor_NewRegistry :: redactor_registry where
  "redactor_NewRegistry = \<lparr>redactors = []\<rparr>"

definition redactor_Register ::
  "redactor option \<Rightarrow> redactor_registry \<Rightarrow> go_error option \<times> redactor_registry" where
  "redactor_Register arg r =
     (case arg of
        None \<Rightarrow> (Some (GoErr ''redactor: nil redactor'' []), r)
      | Some d \<Rightarrow>
          let name = rdName d in
          if name = [] then (Some (GoErr ''redactor: empty name'' []), r)
          else if map_of (redactors r) name \<noteq> None
          then (Some (GoErr ''redactor: %q already registered'' [name]), r)
          else (None, r\<lparr>redactors := (name, d) # redactors r\<rparr>))"

definition redactor_Get :: "string \<Rightarrow> redactor_registry \<Rightarrow> redactor option" where
  "redactor_Get name r = map_of (redactors r) name"

definition redactor_List :: "redactor_registry \<Rightarrow> redactor list" where
  "redactor_List r = sort_key rdName (map snd (redactors r))"

subsection \<open>The contract\<close>

text \<open>Every entry stands under its own non-empty name, once.\<close>

definition entries_ok :: "('a \<Rightarrow> string) \<Rightarrow> (string \<times> 'a) list \<Rightarrow> bool" where
  "entries_ok nm es \<longleftrightarrow> distinct (map fst es) \<and> (\<forall>(k, v)\<in>set es. k = nm v \<and> k \<noteq> [])"

locale registry =
  fixes nm :: "'a \<Rightarrow> string"
    and new :: 'r
    and register :: "'a option \<Rightarrow> 'r \<Rightarrow> go_error option \<times> 'r"
    and lookup :: "string \<Rightarrow> 'r \<Rightarrow> 'a option"
    and listing :: "'r \<Rightarrow> 'a list"
    and ok :: "'r \<Rightarrow> bool"
  assumes ok_new: "ok new"
    and lookup_new: "lookup k new = None"
    and ok_register: "ok r \<Longrightarrow> ok (snd (register arg r))"
    and register_ok_iff: "fst (register arg r) = None \<longleftrightarrow>
      (\<exists>s. arg = Some s \<and> nm s \<noteq> [] \<and> lookup (nm s) r = None)"
    and register_fail: "fst (register arg r) \<noteq> None \<Longrightarrow> snd (register arg r) = r"
    and lookup_register: "fst (register (Some s) r) = None \<Longrightarrow>
      lookup k (snd (register (Some s) r)) = (if k = nm s then Some s else lookup k r)"
    and lookup_name: "ok r \<Longrightarrow> lookup k r = Some s \<Longrightarrow> nm s = k"
    and listing_set: "ok r \<Longrightarrow> set (listing r) = {s. lookup (nm s) r = Some s}"
    and listing_sorted: "ok r \<Longrightarrow> sorted_wrt (<) (map nm (listing r))"
begin

text \<open>Registering a list of values, stopping at the first error, as \<open>buildScanners\<close> does.\<close>

fun register_all :: "'a list \<Rightarrow> 'r \<Rightarrow> go_error option \<times> 'r" where
  "register_all [] r = (None, r)"
| "register_all (s # ss) r =
     (case register (Some s) r of
        (Some e, r') \<Rightarrow> (Some e, r')
      | (None, r') \<Rightarrow> register_all ss r')"

lemma register_all_ok: "ok r \<Longrightarrow> ok (snd (register_all ss r))"
proof (induction ss arbitrary: r)
  case (Cons s ss)
  then show ?case
    using ok_register [OF Cons.prems, of "Some s"] by (auto split: prod.splits option.splits)
qed simp

lemma register_all_lookup:
  assumes "distinct (map nm ss)" "\<And>s. s \<in> set ss \<Longrightarrow> nm s \<noteq> [] \<and> lookup (nm s) r = None"
  shows "fst (register_all ss r) = None \<and>
    lookup k (snd (register_all ss r)) =
      (case find (\<lambda>s. nm s = k) ss of Some s \<Rightarrow> Some s | None \<Rightarrow> lookup k r)"
  using assms
proof (induction ss arbitrary: r)
  case (Cons s ss)
  obtain r' where r': "register (Some s) r = (None, r')"
    using register_ok_iff [of "Some s" r] Cons.prems(2) [of s] by (metis list.set_intros(1) prod.collapse)
  have lk: "lookup j r' = (if j = nm s then Some s else lookup j r)" for j
    using lookup_register [of s r j] r' by simp
  have step: "fst (register_all ss r') = None \<and>
      lookup k (snd (register_all ss r')) =
        (case find (\<lambda>s. nm s = k) ss of Some s \<Rightarrow> Some s | None \<Rightarrow> lookup k r')"
  proof (rule Cons.IH)
    fix t assume t: "t \<in> set ss"
    then have "nm t \<noteq> nm s"
      using Cons.prems(1) by (auto simp: image_iff)
    then show "nm t \<noteq> [] \<and> lookup (nm t) r' = None"
      using Cons.prems(2) [of t] t by (simp add: lk)
  qed (use Cons.prems(1) in simp)
  have "find (\<lambda>s. nm s = k) ss = None" if "k = nm s"
    using Cons.prems(1) that by (auto simp: find_None_iff image_iff)
  then show ?case
    using step r' lk by (auto split: option.splits)
qed simp

lemma listing_unique: "ok r \<Longrightarrow> distinct (listing r)"
  using listing_sorted [of r] by (metis distinct_map strict_sorted_iff)

end

lemma entries_ok_lookup:
  "entries_ok nm es \<Longrightarrow> map_of es k = Some s \<longleftrightarrow> (k, s) \<in> set es"
  by (simp add: entries_ok_def)

lemma entries_ok_name: "entries_ok nm es \<Longrightarrow> map_of es k = Some s \<Longrightarrow> nm s = k"
  by (force simp: entries_ok_def dest: map_of_SomeD)

lemma entries_ok_keys: "entries_ok nm es \<Longrightarrow> map nm (map snd es) = map fst es"
  by (induction es) (auto simp: entries_ok_def)

lemma entries_ok_listing:
  assumes "entries_ok nm es"
  shows "set (sort_key nm (map snd es)) = {s. map_of es (nm s) = Some s}"
    and "sorted_wrt (<) (map nm (sort_key nm (map snd es)))"
proof -
  show "set (sort_key nm (map snd es)) = {s. map_of es (nm s) = Some s}"
    using assms by (force simp: entries_ok_lookup entries_ok_def)
  have "distinct (map nm (map snd es))"
    unfolding entries_ok_keys [OF assms] using assms by (simp add: entries_ok_def)
  then have "distinct (map nm (sort_key nm (map snd es)))"
    unfolding distinct_map [of nm] by simp
  then show "sorted_wrt (<) (map nm (sort_key nm (map snd es)))"
    by (simp add: strict_sorted_iff del: map_map)
qed

text \<open>
  The listing does not depend on the iteration order of the map.
\<close>

lemma listing_order:
  assumes "entries_ok nm es" "entries_ok nm es'" "set es = set es'"
  shows "sort_key nm (map snd es) = sort_key nm (map snd es')"
proof -
  have "distinct es" "distinct es'"
    using assms(1,2) by (auto simp: entries_ok_def distinct_map)
  then have "mset (map snd es) = mset (map snd es')"
    using assms(3) by (metis mset_map set_eq_iff_mset_eq_distinct)
  moreover have "inj_on nm (set (sort_key nm (map snd es)))"
    using entries_ok_listing(2) [OF assms(1)] by (metis distinct_map strict_sorted_iff)
  ultimately show ?thesis
    by (intro sort_key_inj_key_eq) (simp_all del: map_map)
qed

definition scanner_reg_ok :: "scanner_registry \<Rightarrow> bool" where
  "scanner_reg_ok r = entries_ok scName (scanners r)"

definition redactor_reg_ok :: "redactor_registry \<Rightarrow> bool" where
  "redactor_reg_ok r = entries_ok rdName (redactors r)"

interpretation scanner_reg: registry scName scanner_NewRegistry scanner_Register scanner_Get
  scanner_List scanner_reg_ok
proof
  fix r :: scanner_registry and arg k s
  show "scanner_reg_ok r \<Longrightarrow> scanner_reg_ok (snd (scanner_Register arg r))"
    by (auto simp: scanner_reg_ok_def entries_ok_def scanner_Register_def Let_def map_of_eq_None_iff
        split: option.splits)
  show "(fst (scanner_Register arg r) = None) =
      (\<exists>s. arg = Some s \<and> scName s \<noteq> [] \<and> scanner_Get (scName s) r = None)"
    by (auto simp: scanner_Register_def scanner_Get_def Let_def split: option.splits)
  show "scanner_reg_ok r \<Longrightarrow> set (scanner_List r) = {s. scanner_Get (scName s) r = Some s}"
    unfolding scanner_reg_ok_def scanner_List_def scanner_Get_def by (rule entries_ok_listing)
  show "scanner_reg_ok r \<Longrightarrow> sorted_wrt (<) (map scName (scanner_List r))"
    unfolding scanner_reg_ok_def scanner_List_def by (rule entries_ok_listing)
  show "scanner_reg_ok r \<Longrightarrow> scanner_Get k r = Some s \<Longrightarrow> scName s = k"
    unfolding scanner_reg_ok_def scanner_Get_def by (rule entries_ok_name)
qed (auto simp: scanner_reg_ok_def scanner_NewRegistry_def entries_ok_def scanner_Get_def
    scanner_Register_def Let_def split: option.splits if_splits)

interpretation redactor_reg: registry rdName redactor_NewRegistry redactor_Register redactor_Get
  redactor_List redactor_reg_ok
proof
  fix r :: redactor_registry and arg k s
  show "redactor_reg_ok r \<Longrightarrow> redactor_reg_ok (snd (redactor_Register arg r))"
    by (auto simp: redactor_reg_ok_def entries_ok_def redactor_Register_def Let_def
        map_of_eq_None_iff split: option.splits)
  show "(fst (redactor_Register arg r) = None) =
      (\<exists>s. arg = Some s \<and> rdName s \<noteq> [] \<and> redactor_Get (rdName s) r = None)"
    by (auto simp: redactor_Register_def redactor_Get_def Let_def split: option.splits)
  show "redactor_reg_ok r \<Longrightarrow> set (redactor_List r) = {s. redactor_Get (rdName s) r = Some s}"
    unfolding redactor_reg_ok_def redactor_List_def redactor_Get_def by (rule entries_ok_listing)
  show "redactor_reg_ok r \<Longrightarrow> sorted_wrt (<) (map rdName (redactor_List r))"
    unfolding redactor_reg_ok_def redactor_List_def by (rule entries_ok_listing)
  show "redactor_reg_ok r \<Longrightarrow> redactor_Get k r = Some s \<Longrightarrow> rdName s = k"
    unfolding redactor_reg_ok_def redactor_Get_def by (rule entries_ok_name)
qed (auto simp: redactor_reg_ok_def redactor_NewRegistry_def entries_ok_def redactor_Get_def
    redactor_Register_def Let_def split: option.splits if_splits)

end
