(* ===== verification/Detect.thy ===== *)
theory Detect
  imports Api Regex
begin

text \<open>
  What the four built-in scanners share: a table of detectors (type, pattern, severity,
  confidence) and a loop that turns every match that passes the detector's filters into a finding.
  The locale \<open>detector_scanner\<close> states that shape as a contract, with the one thing the table
  has to guarantee (no pattern matches the empty string), and proves once what the pipeline relies
  on.  Each scanner theory interprets it.
\<close>

record detector =
  dTyp :: string
  dPattern :: re
  dSeverity :: severity
  dConfidence :: rat

definition new_finding :: "string \<Rightarrow> 'm detector_scheme \<Rightarrow> nat \<times> nat \<Rightarrow> finding" where
  "new_finding name d idx =
     \<lparr>fType = dTyp d, fSeverity = dSeverity d, fStart = int (fst idx), fEnd = int (snd idx),
      fConfidence = dConfidence d, fScanner = name, fMetadata = []\<rparr>"

lemma new_finding_simps [simp]:
  "fType (new_finding name d idx) = dTyp d" "fSeverity (new_finding name d idx) = dSeverity d"
  "fStart (new_finding name d idx) = int (fst idx)" "fEnd (new_finding name d idx) = int (snd idx)"
  "fScanner (new_finding name d idx) = name" "fConfidence (new_finding name d idx) = dConfidence d"
  by (simp_all add: new_finding_def)

text \<open>The inner loop: the matches of one detector that pass its filters.\<close>

definition detect ::
  "('m detector_scheme \<Rightarrow> bytes \<Rightarrow> nat \<times> nat \<Rightarrow> bool) \<Rightarrow> string \<Rightarrow> bytes \<Rightarrow> 'm detector_scheme
    \<Rightarrow> finding list" where
  "detect accept name data d =
     map (new_finding name d) (filter (accept d data) (FindAllIndex (dPattern d) data))"

text \<open>The promise of a scanner about its offsets.\<close>

definition offsets_ok :: "(bytes \<Rightarrow> hints \<Rightarrow> finding list \<times> go_error option) \<Rightarrow> bool" where
  "offsets_ok scan \<longleftrightarrow> (\<forall>data h. \<forall>f\<in>set (fst (scan data h)). in_range (length data) f)"

locale detector_scanner =
  fixes name :: string
    and detectors :: "'m detector_scheme list"
    and accept :: "'m detector_scheme \<Rightarrow> bytes \<Rightarrow> nat \<times> nat \<Rightarrow> bool"
    and scan :: "bytes \<Rightarrow> hints \<Rightarrow> finding list \<times> go_error option"
  assumes scan_eq: "scan data h =
      (if data = [] then [] else concat (map (detect accept name data) detectors), None)"
    and nonempty: "list_all (\<lambda>d. \<not> nullable (dPattern d)) detectors"
begin

lemma detectors_nonempty: "d \<in> set detectors \<Longrightarrow> \<not> nullable (dPattern d)"
  using nonempty by (simp add: list_all_iff)

lemma scan_mem_iff:
  "f \<in> set (fst (scan data h)) \<longleftrightarrow>
    (\<exists>d\<in>set detectors. \<exists>idx\<in>set (FindAllIndex (dPattern d) data).
       data \<noteq> [] \<and> accept d data idx \<and> f = new_finding name d idx)"
  by (auto simp: scan_eq detect_def)

lemma scan_no_error: "snd (scan data h) = None"
  by (simp add: scan_eq)

lemma scan_offsets: "offsets_ok scan"
proof -
  have "in_range (length data) (new_finding name d (a, b))"
    if "d \<in> set detectors" "(a, b) \<in> set (FindAllIndex (dPattern d) data)" for data d a b
    using FindAllIndex_bounds [OF detectors_nonempty [OF that(1)] that(2)]
    by (simp add: in_range_def)
  then show ?thesis
    unfolding offsets_ok_def by (auto simp: scan_mem_iff)
qed

text \<open>Every finding is a leftmost-first match of a detector of its type that passed the filters.\<close>

lemma scan_sound:
  assumes "f \<in> set (fst (scan data h))"
  obtains d a b where "d \<in> set detectors" "fType f = dTyp d" "fSeverity f = dSeverity d"
    "fScanner f = name" "fStart f = int a" "fEnd f = int b" "match_at (dPattern d) data a = Some b"
    "accept d data (a, b)"
proof -
  obtain d a b where d: "d \<in> set detectors" "(a, b) \<in> set (FindAllIndex (dPattern d) data)"
      "accept d data (a, b)" "f = new_finding name d (a, b)"
    using assms by (auto simp: scan_mem_iff)
  moreover have "match_at (dPattern d) data a = Some b"
    using d(1,2) by (intro FindAllIndex_match_at detectors_nonempty)
  ultimately show ?thesis
    using that [of d a b] by simp
qed

text \<open>
  No match escapes a detector: where its pattern matches at a position that starts a rune, some
  match it enumerates covers that position, and is reported unless a filter rejects it.
\<close>

lemma scan_complete:
  assumes "d \<in> set detectors" "match_at (dPattern d) data j \<noteq> None" "j < length data"
    and "rune_steps data 0 j"
  obtains a b where "a \<le> j" "j < b" "match_at (dPattern d) data a = Some b"
    "accept d data (a, b) \<Longrightarrow> new_finding name d (a, b) \<in> set (fst (scan data h))"
proof -
  obtain a b where ab: "(a, b) \<in> set (FindAllIndex (dPattern d) data)" "a \<le> j" "j < b"
    using FindAllIndex_complete [OF detectors_nonempty [OF assms(1)] assms(4) _ assms(2)] assms(3)
    by auto
  have "match_at (dPattern d) data a = Some b"
    using ab(1) assms(1) by (intro FindAllIndex_match_at detectors_nonempty)
  moreover have "new_finding name d (a, b) \<in> set (fst (scan data h))" if "accept d data (a, b)"
    using that assms(1,3) ab(1) by (auto simp: scan_mem_iff)
  ultimately show ?thesis
    using that [of a b] ab by blast
qed

text \<open>The findings of one detector come in order and do not overlap.\<close>

lemma detect_apart:
  assumes "d \<in> set detectors"
  shows "sorted_wrt (\<lambda>f g. fEnd f \<le> fStart g) (detect accept name data d)"
proof -
  have "sorted_wrt (\<lambda>x y. snd x \<le> fst y) (FindAllIndex (dPattern d) data)"
    using matches_in_disjoint [OF FindAllIndex_in [OF detectors_nonempty [OF assms]], of data]
    by (rule sorted_wrt_mono_rel [rotated]) auto
  then show ?thesis
    unfolding detect_def by (simp add: sorted_wrt_map sorted_wrt_filter)
qed

end

text \<open>
  The values of a finding that other components interpret: the severity is one of the five levels,
  the confidence a positive fraction, and the metadata can be sent to a plugin.
\<close>

definition typed_detector :: "'m detector_scheme \<Rightarrow> bool" where
  "typed_detector d \<longleftrightarrow> dTyp d \<noteq> [] \<and> dSeverity d \<le> SeverityCritical \<and> 0 < dConfidence d \<and> dConfidence d \<le> 1"

definition typed_finding :: "finding \<Rightarrow> bool" where
  "typed_finding f \<longleftrightarrow> fType f \<noteq> [] \<and> fSeverity f \<le> SeverityCritical \<and> 0 < fConfidence f \<and> fConfidence f \<le> 1
     \<and> fMetadata f = []"

locale typed_scanner = detector_scanner +
  assumes typed: "list_all typed_detector detectors"
begin

lemma scan_typed: "f \<in> set (fst (scan data h)) \<Longrightarrow> typed_finding f \<and> fScanner f = name"
  using typed
  by (auto simp: scan_mem_iff typed_finding_def typed_detector_def list_all_iff new_finding_def)

end

end
