(* ===== verification/Pii.thy ===== *)
theory Pii
  imports Detect
begin

text \<open>
  The PII scanner, \<open>src/internal/scanner/pii/pii.go\<close>: its five detectors as syntax trees of
  the regular expressions in the source, the Luhn validation, and \<open>Scan\<close>.
\<close>

definition pii_Name :: string where
  "pii_Name = ''pii''"

subsection \<open>Luhn validation\<close>

text \<open>The loop runs from the last byte to the first, so it recurses over the reversed match.\<close>

fun luhn_loop :: "bytes \<Rightarrow> nat \<Rightarrow> nat \<Rightarrow> bool \<Rightarrow> nat \<times> nat" where
  "luhn_loop [] sm digits alt = (sm, digits)"
| "luhn_loop (c # cs) sm digits alt =
     (if c < 48 \<or> c > 57 then luhn_loop cs sm digits alt
      else let n = unat (c - 48);
               n' = (if alt then (if n * 2 > 9 then n * 2 - 9 else n * 2) else n)
           in luhn_loop cs (sm + n') (digits + 1) (\<not> alt))"

definition luhnValid :: "bytes \<Rightarrow> bool" where
  "luhnValid s =
     (case luhn_loop (rev s) 0 0 False of
        (sm, digits) \<Rightarrow> if digits < 13 \<or> digits > 19 then False else sm mod 10 = 0)"

subsection \<open>Detectors\<close>

record pii_detector = detector +
  dValidate :: "(bytes \<Rightarrow> bool) option"

definition sep :: re where
  "sep = cls (space @ one_of ''.-'')"

definition digits :: "nat \<Rightarrow> re" where
  "digits n = exactly n (cls digit)"

definition octet :: re where
  "octet = alts [seqs [lit ''25'', cls [rng CHR ''0'' CHR ''5'']],
                 seqs [lit ''2'', cls [rng CHR ''0'' CHR ''4''], cls digit],
                 seqs [opt (cls (one_of ''01'')), cls digit, opt (cls digit)]]"

definition email_re :: re where
  "email_re = seqs [WordB, plus (cls (upper @ lower @ digit @ one_of ''._%+-'')), lit ''@'',
     plus (cls (upper @ lower @ digit @ one_of ''.-'')), lit ''.'',
     at_least 2 (cls (upper @ lower)), WordB]"

definition ssn_re :: re where
  "ssn_re = seqs [WordB, digits 3, lit ''-'', digits 2, lit ''-'', digits 4, WordB]"

definition card_re :: re where
  "card_re = seqs [WordB, cls digit,
     between 12 18 (seqs [opt (cls (one_of '' -'')), cls digit]), WordB]"

definition phone_re :: re where
  "phone_re = alts
     [seqs [lit ''+1'', opt sep, lit ''('', digits 3, lit '')'', opt sep, digits 3, opt sep,
            digits 4, WordB],
      seqs [lit ''+1'', sep, digits 3, sep, digits 3, sep, digits 4, WordB],
      seqs [lit ''('', digits 3, lit '')'', opt sep, digits 3, opt sep, digits 4, WordB],
      seqs [WordB, digits 3, sep, digits 3, sep, digits 4, WordB]]"

definition ipv4_re :: re where
  "ipv4_re = seqs [WordB, exactly 3 (seqs [octet, lit ''.'']), octet, WordB]"

definition pii_detectors :: "pii_detector list" where
  "pii_detectors =
    [\<lparr>dTyp = ''pii.email'', dPattern = email_re, dSeverity = SeverityMedium,
      dConfidence = 95/100, dValidate = None\<rparr>,
     \<lparr>dTyp = ''pii.ssn_us'', dPattern = ssn_re, dSeverity = SeverityHigh,
      dConfidence = 90/100, dValidate = None\<rparr>,
     \<lparr>dTyp = ''pii.credit_card'', dPattern = card_re, dSeverity = SeverityCritical,
      dConfidence = 95/100, dValidate = Some luhnValid\<rparr>,
     \<lparr>dTyp = ''pii.phone_us'', dPattern = phone_re, dSeverity = SeverityLow,
      dConfidence = 80/100, dValidate = None\<rparr>,
     \<lparr>dTyp = ''pii.ipv4'', dPattern = ipv4_re, dSeverity = SeverityLow,
      dConfidence = 85/100, dValidate = None\<rparr>]"

definition pii_accept :: "pii_detector \<Rightarrow> bytes \<Rightarrow> nat \<times> nat \<Rightarrow> bool" where
  "pii_accept d data idx =
     (case dValidate d of None \<Rightarrow> True
      | Some validate \<Rightarrow> validate (slice (fst idx) (snd idx) data))"

subsection \<open>Scan\<close>

definition pii_Scan :: "bytes \<Rightarrow> hints \<Rightarrow> finding list \<times> go_error option" where
  "pii_Scan data h =
     (if data = [] then ([], None)
      else (concat (map (detect pii_accept pii_Name data) pii_detectors), None))"

definition pii_New :: scanner where
  "pii_New = \<lparr>scName = pii_Name, scAccepts = Some True, scScan = pii_Scan\<rparr>"

interpretation pii: typed_scanner pii_Name pii_detectors pii_accept pii_Scan
proof
  show "list_all (\<lambda>d. \<not> nullable (dPattern d)) pii_detectors"
    by code_simp
  show "list_all typed_detector pii_detectors"
    by (simp add: pii_detectors_def typed_detector_def severity_defs)
qed (simp add: pii_Scan_def)


subsection \<open>The Luhn checksum\<close>

definition is_digit :: "byte \<Rightarrow> bool" where
  "is_digit c \<longleftrightarrow> 48 \<le> c \<and> c \<le> 57"

definition digit_values :: "bytes \<Rightarrow> nat list" where
  "digit_values s = map (\<lambda>c. unat (c - 48)) (filter is_digit s)"

text \<open>
  The reference: counting from the right, every second digit is doubled and its decimal digits
  added up.
\<close>

definition luhn_term :: "nat \<Rightarrow> nat \<Rightarrow> nat" where
  "luhn_term i n = (if odd i then 2 * n div 10 + 2 * n mod 10 else n)"

definition luhn_sum :: "nat list \<Rightarrow> nat" where
  "luhn_sum ds = (\<Sum>i<length ds. luhn_term i (rev ds ! i))"

lemma digit_bound: "is_digit c \<Longrightarrow> unat (c - 48) < 10"
  unfolding is_digit_def by unat_arith

lemma digit_values_bound: "n \<in> set (digit_values s) \<Longrightarrow> n < 10"
  by (auto simp: digit_values_def digit_bound)

lemma below_ten: "n < 10 \<Longrightarrow> n \<in> {0, 1, 2, 3, 4, 5, 6, 7, 8, 9 :: nat}"
  by auto

lemma double_digit:
  "n < 10 \<Longrightarrow> (if n * 2 > 9 then n * 2 - 9 else n * 2) = 2 * n div 10 + 2 * n mod (10 :: nat)"
  by (drule below_ten) (elim insertE emptyE; simp)

lemma luhn_loop_sum:
  "luhn_loop cs sm k alt =
    (sm + (\<Sum>i<length (digit_values cs).
        luhn_term (if alt then Suc i else i) (digit_values cs ! i)),
     k + length (digit_values cs))"
proof (induction cs arbitrary: sm k alt)
  case Nil
  then show ?case by (simp add: digit_values_def)
next
  case (Cons c cs)
  show ?case
  proof (cases "is_digit c")
    case False
    then show ?thesis
      using Cons by (simp add: digit_values_def is_digit_def not_le)
  next
    case True
    let ?n = "unat (c - 48)" and ?ds = "digit_values cs"
    have d: "digit_values (c # cs) = ?n # ?ds"
      using True by (simp add: digit_values_def)
    have split: "(\<Sum>i<length (?n # ?ds). luhn_term (if alt then Suc i else i) ((?n # ?ds) ! i)) =
        luhn_term (if alt then 1 else 0) ?n +
        (\<Sum>i<length ?ds. luhn_term (if \<not> alt then Suc i else i) (?ds ! i))"
      unfolding length_Cons sum.lessThan_Suc_shift
      by (cases alt) (simp_all add: luhn_term_def)
    show ?thesis
      unfolding d split luhn_loop.simps(2)
      using True Cons double_digit [OF digit_bound [OF True]]
      by (cases alt) (simp_all add: is_digit_def not_less luhn_term_def Let_def)
  qed
qed

lemma digit_values_rev: "digit_values (rev s) = rev (digit_values s)"
  by (simp add: digit_values_def rev_filter rev_map)

lemma luhnValid_iff:
  "luhnValid s \<longleftrightarrow>
    13 \<le> length (digit_values s) \<and> length (digit_values s) \<le> 19 \<and> 10 dvd luhn_sum (digit_values s)"
  unfolding luhnValid_def luhn_loop_sum
  by (auto simp: luhn_sum_def digit_values_rev)

text \<open>A single wrong digit is always noticed.\<close>

lemma luhn_term_inj:
  assumes "luhn_term i m mod 10 = luhn_term i n mod 10" "m < 10" "n < 10"
  shows "m = n"
proof -
  have "(2 * m div 10 + 2 * m mod 10) mod 10 = (2 * n div 10 + 2 * n mod (10 :: nat)) mod 10 \<Longrightarrow>
      m = n"
    using below_ten [OF assms(2)] below_ten [OF assms(3)] by (elim insertE emptyE; simp)
  then show ?thesis
    using assms by (cases "odd i") (simp_all add: luhn_term_def)
qed

lemma same_residue:
  fixes a b s :: nat
  assumes "10 dvd a + s" "10 dvd b + s"
  shows "a mod 10 = b mod 10"
proof -
  have "10 dvd (int a + int s) - (int b + int s)"
    using assms by (intro dvd_diff) (metis of_nat_add of_nat_dvd_iff of_nat_numeral)+
  then have "int a mod 10 = int b mod 10"
    by (simp add: mod_eq_dvd_iff)
  then show ?thesis
    by (metis of_nat_eq_iff of_nat_mod of_nat_numeral)
qed

lemma luhn_sum_update:
  assumes "i < length ds" "10 dvd luhn_sum ds" "10 dvd luhn_sum (ds[i := n])"
    and "ds ! i < 10" "n < 10"
  shows "n = ds ! i"
proof -
  let ?k = "length ds - 1 - i"
  have k: "?k < length ds" and ik: "length ds - Suc ?k = i"
    using assms(1) by linarith+
  let ?S = "\<Sum>j\<in>{..<length ds} - {?k}. luhn_term j (rev ds ! j)"
  have old: "luhn_sum ds = luhn_term ?k (ds ! i) + ?S"
    unfolding luhn_sum_def using k ik by (subst sum.remove [of _ ?k]) (simp_all add: rev_nth)
  have same: "rev (ds[i := n]) ! j = rev ds ! j" if "j < length ds" "j \<noteq> ?k" for j
  proof -
    have "length ds - Suc j \<noteq> i"
      using that by linarith
    then show ?thesis
      using that(1) by (simp add: rev_nth)
  qed
  have "luhn_sum (ds[i := n]) = luhn_term ?k n +
      (\<Sum>j\<in>{..<length ds} - {?k}. luhn_term j (rev (ds[i := n]) ! j))"
    unfolding luhn_sum_def using k ik assms(1)
    by (subst sum.remove [of _ ?k]) (simp_all add: rev_nth)
  then have new: "luhn_sum (ds[i := n]) = luhn_term ?k n + ?S"
    using same by simp
  have "luhn_term ?k n mod 10 = luhn_term ?k (ds ! i) mod 10"
    using assms(2,3) unfolding old new by (rule same_residue [rotated])
  then show ?thesis
    by (rule luhn_term_inj [OF _ assms(5,4)])
qed


subsection \<open>Social security numbers\<close>

definition digit_at :: "bytes \<Rightarrow> nat \<Rightarrow> bool" where
  "digit_at s i \<longleftrightarrow> i < length s \<and> is_digit (s ! i)"

definition dash_at :: "bytes \<Rightarrow> nat \<Rightarrow> bool" where
  "dash_at s i \<longleftrightarrow> i < length s \<and> s ! i = 45"

lemma class_at_digit: "class_at digit s i \<longleftrightarrow> digit_at s i"
  by (auto simp: class_at_def digit_at_def is_digit_def digit_def rng_def chr_def in_ranges_def
      word_le_def)

lemma class_at_dash: "class_at [(chr CHR ''-'', chr CHR ''-'')] s i \<longleftrightarrow> dash_at s i"
  by (auto simp: class_at_def dash_at_def chr_def in_ranges_def word_uint_eq_iff)

lemma digit_not_dash: "digit_at s i \<Longrightarrow> \<not> dash_at s i"
  by (auto simp: digit_at_def dash_at_def is_digit_def)

lemma ascii_digit: "ascii_ranges digit" "ascii_ranges [(chr CHR ''-'', chr CHR ''-'')]"
  by code_simp+

text \<open>\<open>ddd-dd-dddd\<close> between word boundaries.\<close>

definition ssn_at :: "bytes \<Rightarrow> nat \<Rightarrow> bool" where
  "ssn_at s i \<longleftrightarrow> at_word_boundary s i \<and>
     list_all (\<lambda>k. digit_at s (i + k)) [0, 1, 2, 4, 5, 7, 8, 9, 10] \<and>
     list_all (\<lambda>k. dash_at s (i + k)) [3, 6] \<and> at_word_boundary s (i + 11)"

lemma rigid_digits: "rigid (digits n) n (\<lambda>s i. list_all (\<lambda>k. digit_at s (i + k)) [0..<n])"
  using rigid_exactly [OF ascii_digit(1), of n]
  by (simp add: digits_def class_at_digit list_all_iff lessThan_atLeast0 [symmetric] Ball_def)

lemma rigid_dash: "rigid (lit ''-'') 1 dash_at"
  using rigid_cls [OF ascii_digit(2)]
  by (simp add: lit_def class_at_dash [abs_def] rigid_def del: re_ends.simps)

lemma rigid_ssn: "rigid ssn_re 11 ssn_at"
proof -
  have upts: "[0..<3] = [0, 1, 2 :: nat]" "[0..<2] = [0, 1 :: nat]" "[0..<4] = [0, 1, 2, 3 :: nat]"
    by (simp_all add: upt_rec)
  note pieces = rigid_Cat [OF rigid_WordB rigid_Cat [OF rigid_digits [of 3] rigid_Cat [OF rigid_dash
    rigid_Cat [OF rigid_digits [of 2] rigid_Cat [OF rigid_dash
    rigid_Cat [OF rigid_digits [of 4] rigid_WordB]]]]]]
  have "ssn_re = Cat WordB (Cat (digits 3) (Cat (lit ''-'') (Cat (digits 2)
      (Cat (lit ''-'') (Cat (digits 4) WordB)))))"
    by (simp add: ssn_re_def)
  moreover have "ssn_at = (\<lambda>s i. at_word_boundary s i \<and> digit_at s i \<and> digit_at s (i + 1) \<and>
      digit_at s (i + 2) \<and> dash_at s (i + 3) \<and> digit_at s (i + 4) \<and> digit_at s (i + 5) \<and>
      dash_at s (i + 6) \<and> digit_at s (i + 7) \<and> digit_at s (i + 8) \<and> digit_at s (i + 9) \<and>
      digit_at s (i + 10) \<and> at_word_boundary s (i + 11))"
    by (intro ext) (auto simp: ssn_at_def)
  ultimately show ?thesis
    using pieces unfolding upts by (simp add: add.commute)
qed

lemma digit_word: "digit_at s i \<Longrightarrow> word_at s i"
  by (simp add: digit_at_def word_at_def is_digit_def is_word_def)

lemma digits_no_boundary: "digit_at s i \<Longrightarrow> digit_at s (Suc i) \<Longrightarrow> \<not> at_word_boundary s (Suc i)"
  by (simp add: at_word_boundary_def digit_word)

text \<open>
  Two occurrences never overlap: a digit of one would be a dash of the other, or a boundary would
  stand between two digits.
\<close>

lemma ssn_at_alone:
  assumes j: "ssn_at s (a + k)" and a: "ssn_at s a" and k: "0 < k" "k < 11"
  shows False
proof -
  have "k = 1 \<or> k = 2 \<or> k = 3 \<or> k = 4 \<or> k = 5 \<or> k = 6 \<or> k = 7 \<or> k = 8 \<or> k = 9 \<or> k = 10"
    using k by presburger
  then consider "k \<in> {1, 2, 7}" | "k \<in> {3, 4, 5, 6}" | "k \<in> {8, 9, 10}"
    by blast
  then show False
  proof cases
    case 1
    then have "digit_at s (a + (k + 3))" "dash_at s (a + (k + 3))"
      using a j by (auto simp: ssn_at_def add.assoc)
    then show False by (blast dest: digit_not_dash)
  next
    case 2
    then have "dash_at s (a + 3) \<and> digit_at s (a + 3) \<or> dash_at s (a + 6) \<and> digit_at s (a + 6)"
      using a j by (auto simp: ssn_at_def ac_simps)
    then show False by (blast dest: digit_not_dash)
  next
    case 3
    then have "digit_at s (a + (k - 1))" "digit_at s (a + k)"
      using a by (auto simp: ssn_at_def)
    then have "\<not> at_word_boundary s (a + k)"
      using digits_no_boundary [of s "a + (k - 1)"] k by simp
    then show False using j by (simp add: ssn_at_def)
  qed
qed

lemma ssn_found: "ssn_at s j \<Longrightarrow> (j, j + 11) \<in> set (FindAllIndex ssn_re s)"
proof (rule rigid_found [OF rigid_ssn])
  assume j: "ssn_at s j"
  then have "digit_at s j" by (simp add: ssn_at_def)
  then show "j < length s" "s ! j < 0x80"
    by (auto simp: digit_at_def is_digit_def intro: order.strict_trans1)
  show "\<not> ssn_at s a" if "a < j" "j < a + 11" for a
  proof -
    have "j - a < 11" "0 < j - a" "a + (j - a) = j"
      using that by linarith+
    then show ?thesis
      using ssn_at_alone [of s a "j - a"] j by metis
  qed
  show "\<not> nullable ssn_re" by code_simp
qed

lemma ssn_finding:
  assumes "ssn_at data j"
  shows "\<exists>f\<in>set (fst (pii_Scan data h)). fType f = ''pii.ssn_us'' \<and> fStart f = int j \<and> fEnd f = int (j + 11)"
proof -
  let ?d = "pii_detectors ! 1"
  have d: "?d \<in> set pii_detectors" "dPattern ?d = ssn_re" "dTyp ?d = ''pii.ssn_us''" "dValidate ?d = None"
    by (simp_all add: pii_detectors_def)
  have "digit_at data j"
    using assms by (simp add: ssn_at_def)
  then have "data \<noteq> []"
    by (auto simp: digit_at_def)
  then have "new_finding pii_Name ?d (j, j + 11) \<in> set (fst (pii_Scan data h))"
    unfolding pii.scan_mem_iff using d ssn_found [OF assms]
    by (intro bexI [of _ ?d] bexI [of _ "(j, j + 11)"]) (simp_all add: pii_accept_def)
  then show ?thesis
    using d by (intro bexI) simp_all
qed

subsection \<open>Properties\<close>

text \<open>
  C31: \<open>luhnValid\<close> accepts exactly the strings with 13 to 19 digits whose Luhn sum (every second
  digit from the right doubled, the digits of the doubled numbers added) is a multiple of ten,
  whatever separators stand between the digits.
\<close>

theorem luhn_exact:
  "luhnValid s \<longleftrightarrow>
    13 \<le> length (digit_values s) \<and> length (digit_values s) \<le> 19 \<and> 10 dvd luhn_sum (digit_values s)"
  by (rule luhnValid_iff)

lemma digit_value_inj: "is_digit c \<Longrightarrow> is_digit d \<Longrightarrow> unat (c - 48) = unat (d - 48) \<Longrightarrow> c = d"
  by (metis diff_add_cancel word_unat_eq_iff)

lemma digit_values_update:
  assumes "i < length s" "is_digit (s ! i)" "is_digit c"
  shows "digit_values (s[i := c]) =
    (digit_values s)[length (digit_values (take i s)) := unat (c - 48)]"
    and "length (digit_values (take i s)) < length (digit_values s)"
    and "digit_values s ! length (digit_values (take i s)) = unat (s ! i - 48)"
proof -
  have s: "digit_values s = digit_values (take i s) @ unat (s ! i - 48) # digit_values (drop (Suc i) s)"
    by (subst id_take_nth_drop [OF assms(1)]) (simp add: digit_values_def assms(2))
  have "digit_values (s[i := c]) = digit_values (take i s) @ unat (c - 48) # digit_values (drop (Suc i) s)"
    by (simp add: upd_conv_take_nth_drop [OF assms(1)] digit_values_def assms(3))
  then show "digit_values (s[i := c]) =
      (digit_values s)[length (digit_values (take i s)) := unat (c - 48)]"
    unfolding s by simp
  show "length (digit_values (take i s)) < length (digit_values s)"
    unfolding s by simp
  show "digit_values s ! length (digit_values (take i s)) = unat (s ! i - 48)"
    unfolding s by simp
qed

text \<open>
  The check notices every single wrong digit: replacing one digit of a number that passes by a
  different digit gives a number that does not pass.
\<close>

lemma luhn_catches_wrong_digit:
  assumes "luhnValid s" "i < length s" "is_digit (s ! i)" "is_digit c" "c \<noteq> s ! i"
  shows "\<not> luhnValid (s[i := c])"
proof
  let ?j = "length (digit_values (take i s))" and ?n = "unat (c - 48)"
  assume "luhnValid (s[i := c])"
  then have "10 dvd luhn_sum ((digit_values s)[?j := ?n])"
    unfolding luhnValid_iff digit_values_update(1) [OF assms(2-4)] by simp
  moreover have "10 dvd luhn_sum (digit_values s)"
    using assms(1) by (simp add: luhnValid_iff)
  ultimately have "?n = digit_values s ! ?j"
    using digit_values_update(2) [OF assms(2-4)] assms(3,4)
    by (intro luhn_sum_update) (simp_all add: digit_values_update(3) [OF assms(2-4)] digit_bound)
  then show False
    using digit_value_inj [OF assms(4,3)] assms(5) by (simp add: digit_values_update(3) [OF assms(2-4)])
qed

text \<open>
  C16: Every social security number between word boundaries is reported with exactly its offsets,
  wherever it stands in the body and whatever surrounds it.
\<close>

theorem ssn_reported:
  assumes "ssn_at data j"
  shows "\<exists>f\<in>set (fst (pii_Scan data h)). fType f = ''pii.ssn_us'' \<and> fStart f = int j \<and> fEnd f = int (j + 11)"
  by (rule ssn_finding [OF assms])

theorem ssn_reported_witness:
  "\<exists>f\<in>set (fst (pii_Scan [32, 49, 50, 51, 45, 52, 53, 45, 54, 55, 56, 57]
       \<lparr>hContentType = [], hURL = [], hMethod = [], hDirection = 0\<rparr>)).
     fType f = ''pii.ssn_us'' \<and> fStart f = 1 \<and> fEnd f = 12"
proof -
  have "ssn_at [32, 49, 50, 51, 45, 52, 53, 45, 54, 55, 56, 57] 1"
    by code_simp
  from ssn_reported [OF this] show ?thesis by simp
qed

end
