(* ===== verification/Sqli.thy ===== *)
theory Sqli
  imports Detect
begin

text \<open>
  The SQL-injection scanner, \<open>src/internal/scanner/sqli/sqli.go\<close>: its detectors, the
  expansion of \<open>\s\<close> to the Unicode space separators that \<open>mustCompile\<close> makes, and \<open>Scan\<close>.
\<close>

definition sqli_Name :: string where
  "sqli_Name = ''sqli''"

text \<open>
  \<open>mustCompile\<close> replaces the text \<open>\s\<close> by \<open>[\s\p{Zs}]\<close> before it compiles; on the
  syntax tree, every white-space class gains the category \<open>Zs\<close>.
\<close>

primrec sqli_mustCompile :: "re \<Rightarrow> re" where
  "sqli_mustCompile Empty = Empty"
| "sqli_mustCompile (Cls neg fld rs) = Cls neg fld (if rs = space then space @ unicode_Zs else rs)"
| "sqli_mustCompile WordB = WordB"
| "sqli_mustCompile BeginLine = BeginLine"
| "sqli_mustCompile EndLine = EndLine"
| "sqli_mustCompile (Cat p q) = Cat (sqli_mustCompile p) (sqli_mustCompile q)"
| "sqli_mustCompile (Alt p q) = Alt (sqli_mustCompile p) (sqli_mustCompile q)"
| "sqli_mustCompile (Rep p m mx g) = Rep (sqli_mustCompile p) m mx g"

definition sp :: re where "sp = cls space"
definition quote :: re where "quote = lit [CHR 0x27]"
definition digits1 :: re where "digits1 = plus (cls digit)"

definition union_re :: re where
  "union_re = fold_case (seqs [WordB, lit ''union'', plus sp, opt (seqs [lit ''all'', plus sp]),
     lit ''select'', WordB])"

definition tautology_re :: re where
  "tautology_re = fold_case (seqs [opt (seqs [quote, star sp]), WordB,
     alts [lit ''or'', lit ''and''], WordB, plus sp, opt quote, digits1, opt quote, star sp,
     lit ''='', star sp, opt quote, digits1, opt quote])"

definition chain_re :: re where
  "chain_re = fold_case (seqs [lit '';'', star sp,
     alts [lit ''drop'', lit ''delete'', lit ''update'', lit ''insert'', lit ''truncate'',
           lit ''alter''], WordB])"

definition comment_re :: re where
  "comment_re = alts [seqs [lit ''--'', sp],
     seqs [lit ''/*'', lazy_star (ncls [(10, 10)]), lit ''*/''],
     seqs [lit ''#'', plus sp, alts [lit ''OR'', lit ''AND''], plus sp]]"

definition time_re :: re where
  "time_re = fold_case (alts [seqs [WordB, alts [lit ''sleep'', lit ''benchmark'',
       lit ''pg_sleep''], star sp, lit ''(''],
     seqs [WordB, lit ''waitfor'', plus sp, lit ''delay'', WordB]])"

definition cmdshell_re :: re where
  "cmdshell_re = fold_case (seqs [WordB, lit ''xp_cmdshell'', WordB])"

definition schema_re :: re where
  "schema_re = fold_case (seqs [WordB, alts [lit ''information_schema'', lit ''sys.databases'',
     lit ''sys.tables''], WordB])"

definition hex_re :: re where
  "hex_re = seqs [WordB, lit ''0x'',
     at_least 16 (cls (digit @ [rng CHR ''a'' CHR ''f'', rng CHR ''A'' CHR ''F''])), WordB]"

definition chr_call :: re where
  "chr_call = seqs [lit ''CH'', alts [lit ''R'', lit ''AR''], lit ''('', star sp,
     between 1 3 (cls digit), star sp, lit '')'']"

definition short_literal :: re where
  "short_literal = seqs [quote, between 0 16 (ncls [(0x27, 0x27)]), quote]"

definition chr_re :: re where
  "chr_re = fold_case (seqs [short_literal, star sp, plus (cls (one_of ''+|'')), star sp, chr_call,
     star sp, plus (cls (one_of ''+|'')), star sp, short_literal, star sp,
     plus (cls (one_of ''+|'')), star sp, chr_call])"

definition sqli_detectors :: "detector list" where
  "sqli_detectors =
    [\<lparr>dTyp = ''sqli.union_select'', dPattern = sqli_mustCompile union_re,
      dSeverity = SeverityHigh, dConfidence = 90/100\<rparr>,
     \<lparr>dTyp = ''sqli.tautology'', dPattern = sqli_mustCompile tautology_re,
      dSeverity = SeverityHigh, dConfidence = 85/100\<rparr>,
     \<lparr>dTyp = ''sqli.statement_chain'', dPattern = sqli_mustCompile chain_re,
      dSeverity = SeverityCritical, dConfidence = 90/100\<rparr>,
     \<lparr>dTyp = ''sqli.comment_marker'', dPattern = sqli_mustCompile comment_re,
      dSeverity = SeverityMedium, dConfidence = 50/100\<rparr>,
     \<lparr>dTyp = ''sqli.time_based'', dPattern = sqli_mustCompile time_re,
      dSeverity = SeverityHigh, dConfidence = 85/100\<rparr>,
     \<lparr>dTyp = ''sqli.xp_cmdshell'', dPattern = cmdshell_re,
      dSeverity = SeverityCritical, dConfidence = 95/100\<rparr>,
     \<lparr>dTyp = ''sqli.schema_recon'', dPattern = schema_re,
      dSeverity = SeverityMedium, dConfidence = 70/100\<rparr>,
     \<lparr>dTyp = ''sqli.hex_payload'', dPattern = hex_re,
      dSeverity = SeverityLow, dConfidence = 40/100\<rparr>,
     \<lparr>dTyp = ''sqli.tautology'', dPattern = chr_re,
      dSeverity = SeverityHigh, dConfidence = 80/100\<rparr>]"

definition sqli_accept :: "detector \<Rightarrow> bytes \<Rightarrow> nat \<times> nat \<Rightarrow> bool" where
  "sqli_accept d data idx = True"

definition sqli_Scan :: "bytes \<Rightarrow> hints \<Rightarrow> finding list \<times> go_error option" where
  "sqli_Scan data h =
     (if data = [] then ([], None)
      else (concat (map (detect sqli_accept sqli_Name data) sqli_detectors), None))"

definition sqli_New :: scanner where
  "sqli_New = \<lparr>scName = sqli_Name, scAccepts = Some True, scScan = sqli_Scan\<rparr>"

interpretation sqli: typed_scanner sqli_Name sqli_detectors sqli_accept sqli_Scan
proof
  show "list_all (\<lambda>d. \<not> nullable (dPattern d)) sqli_detectors"
    by code_simp
  show "list_all typed_detector sqli_detectors"
    by (simp add: sqli_detectors_def typed_detector_def severity_defs)
qed (simp add: sqli_Scan_def)

text \<open>
  The expansion only widens: where a pattern without negated white space matches as written, the
  compiled one can reach the same end.
\<close>

primrec space_positive :: "re \<Rightarrow> bool" where
  "space_positive Empty = True"
| "space_positive (Cls neg fld rs) = (rs = space \<longrightarrow> \<not> neg)"
| "space_positive WordB = True"
| "space_positive BeginLine = True"
| "space_positive EndLine = True"
| "space_positive (Cat p q) = (space_positive p \<and> space_positive q)"
| "space_positive (Alt p q) = (space_positive p \<and> space_positive q)"
| "space_positive (Rep p m mx g) = space_positive p"

lemma times_ends_mono:
  assumes "\<And>i. set (f i) \<subseteq> set (g i)"
  shows "set (times_ends f m i) \<subseteq> set (times_ends g m i)"
proof (induction m arbitrary: i)
  case (Suc m)
  then show ?case using assms [of i] by fastforce
qed simp

lemma upto_ends_mono:
  assumes "\<And>i. set (f i) \<subseteq> set (g i)"
  shows "set (upto_ends f k gr i) \<subseteq> set (upto_ends g k gr i)"
proof (induction k arbitrary: i)
  case (Suc k)
  have "(\<Union>j\<in>set (filter (\<lambda>j. i < j) (f i)). set (upto_ends f k gr j)) \<subseteq>
      (\<Union>j\<in>set (filter (\<lambda>j. i < j) (g i)). set (upto_ends g k gr j))"
    using assms [of i] Suc by (intro UN_mono) auto
  then show ?case by (cases gr) (auto simp: Let_def)
qed simp

lemma cls_match_append: "cls_match False fld rs r \<Longrightarrow> cls_match False fld (rs @ rs') r"
  by (auto simp: cls_match_def in_ranges_def list_ex_iff Let_def split: if_splits)

lemma cls_ends_mono:
  assumes "\<And>r. cls_match neg fld rs r \<Longrightarrow> cls_match neg fld rs' r"
  shows "set (re_ends (Cls neg fld rs) s i) \<subseteq> set (re_ends (Cls neg fld rs') s i)"
proof -
  obtain r w where rw: "DecodeRune (drop i s) = (r, w)"
    by (rule prod.exhaust)
  show ?thesis
    unfolding re_ends.simps rw prod.case using assms [of r] by (cases "i < length s") (simp_all, blast)
qed

lemma mustCompile_widens:
  "space_positive p \<Longrightarrow> set (re_ends p s i) \<subseteq> set (re_ends (sqli_mustCompile p) s i)"
proof (induction p arbitrary: i)
  case (Cls neg fld rs)
  have "cls_match neg fld rs r \<Longrightarrow> cls_match neg fld (if rs = space then space @ unicode_Zs else rs) r"
    for r using Cls cls_match_append [of fld space r unicode_Zs] by (cases "rs = space") auto
  then show ?case
    unfolding sqli_mustCompile.simps by (rule cls_ends_mono)
next
  case (Cat p q)
  then show ?case by fastforce
next
  case (Alt p q)
  then show ?case by fastforce
next
  case (Rep p m mx g)
  then have p: "set (re_ends p s i) \<subseteq> set (re_ends (sqli_mustCompile p) s i)" for i
    by simp
  show ?case
    using times_ends_mono [of "re_ends p s" "re_ends (sqli_mustCompile p) s", OF p]
      upto_ends_mono [of "re_ends p s" "re_ends (sqli_mustCompile p) s", OF p]
    by fastforce
qed simp_all

lemma mustCompile_matches:
  assumes "space_positive p" "match_at p s i \<noteq> None"
  shows "match_at (sqli_mustCompile p) s i \<noteq> None"
  using mustCompile_widens [OF assms(1), of s i] assms(2)
  by (auto simp: match_at_def split: list.splits)

end
