(* ===== verification/Code_Scanner.thy ===== *)
theory Code_Scanner
  imports Detect
begin

text \<open>
  The source-code scanner, \<open>src/internal/scanner/code/code.go\<close>: its detectors as syntax trees
  of the regular expressions in the source, and \<open>Scan\<close>.
\<close>

definition code_Name :: string where
  "code_Name = ''code''"

definition ws :: re where "ws = cls space"
definition word_star :: re where "word_star = star (cls wordc)"
definition ident_start :: "(rune \<times> rune) list" where "ident_start = upper @ lower @ one_of ''_''"
definition ident :: re where
  "ident = seqs [cls ident_start, star (cls (upper @ lower @ digit @ one_of ''_''))]"
definition class_name :: re where
  "class_name = seqs [cls upper, star (cls (upper @ lower @ digit @ one_of ''_''))]"
definition quotes :: "(rune \<times> rune) list" where
  "quotes = [(0x27, 0x27), (0x22, 0x22)]"

definition python_def_re :: re where
  "python_def_re = seqs [WordB, lit ''def'', plus ws, ident, star ws, lit ''('']"

definition pseudo_def_re :: re where
  "pseudo_def_re = seqs [BeginLine, star (cls [(32, 32), (9, 9)]), lit ''def'', plus ws,
     cls ident_start, word_star, plus ws, cls ident_start, word_star,
     star (ncls (one_of ''()'' @ [(10, 10)])), lit '':'']"

definition python_class_re :: re where
  "python_class_re = seqs [WordB, lit ''class'', plus ws, class_name, star ws, cls (one_of ''(:'')]"

definition pseudo_class_re :: re where
  "pseudo_class_re = seqs [BeginLine, star (cls [(32, 32), (9, 9)]), lit ''class'', plus ws,
     cls upper, word_star, plus ws, cls ident_start, word_star,
     star (ncls (one_of ''()'' @ [(10, 10)])), lit '':'']"

definition python_import_re :: re where
  "python_import_re = seqs [BeginLine, star ws,
     opt (seqs [lit ''from'', plus ws, plus (cls (wordc @ one_of ''.'')), plus ws]),
     lit ''import'', plus ws, cls ident_start, star (cls (wordc @ one_of '','' @ space)), EndLine]"

definition js_function_re :: re where
  "js_function_re = seqs [WordB, lit ''function'', plus ws, cls (ident_start @ one_of ''$''),
     star (cls (upper @ lower @ digit @ one_of ''_$'')), star ws, lit ''('']"

definition js_arrow_re :: re where
  "js_arrow_re = seqs [lit ''=>'', cls (space @ one_of ''{('')]"

definition js_require_re :: re where
  "js_require_re = seqs [WordB, lit ''require'', star ws, lit ''('', star ws, cls quotes,
     plus (ncls quotes), cls quotes, star ws, lit '')'']"

definition js_console_re :: re where
  "js_console_re = seqs [WordB, lit ''console.'',
     alts [lit ''log'', lit ''error'', lit ''warn'', lit ''info''], star ws, lit ''('']"

definition go_func_re :: re where
  "go_func_re = seqs [WordB, lit ''func'', plus ws,
     opt (seqs [lit ''('', star (ncls (one_of '')'')), lit '')'', plus ws]), ident, star ws,
     lit ''('']"

definition go_package_re :: re where
  "go_package_re = seqs [BeginLine, lit ''package'', plus ws, cls lower,
     star (cls (lower @ digit @ one_of ''_'')), star ws, EndLine]"

definition c_include_re :: re where
  "c_include_re = seqs [BeginLine, star ws, lit ''#'', star ws, lit ''include'', star ws,
     cls (one_of ''<'' @ [(0x22, 0x22)]), plus (ncls (one_of ''>'' @ [(0x22, 0x22)])),
     cls (one_of ''>'' @ [(0x22, 0x22)])]"

definition java_class_re :: re where
  "java_class_re = seqs [WordB, alts [lit ''public'', lit ''private'', lit ''protected''], plus ws,
     opt (seqs [lit ''static'', plus ws]), opt (seqs [lit ''final'', plus ws]), lit ''class'',
     plus ws, class_name, WordB]"

definition shebang_re :: re where
  "shebang_re = seqs [BeginLine, lit ''#!'', star ws, opt (lit ''/usr''), lit ''/'',
     alts [lit ''bin'', lit ''local/bin''], lit ''/'', opt (seqs [lit ''env'', plus ws]),
     cls (upper @ lower), star (cls (upper @ lower @ digit @ one_of ''_/-''))]"

definition sql_create_re :: re where
  "sql_create_re = fold_case (seqs [WordB, lit ''create'', plus ws,
     opt (seqs [lit ''temporary'', plus ws]),
     alts [lit ''table'', lit ''view'', lit ''index'', lit ''schema'', lit ''procedure'',
           lit ''function''], plus ws, cls ident_start])"

definition code_detectors :: "detector list" where
  "code_detectors =
    [\<lparr>dTyp = ''code.python_def'', dPattern = python_def_re,
      dSeverity = SeverityMedium, dConfidence = 85/100\<rparr>,
     \<lparr>dTyp = ''code.python_def'', dPattern = pseudo_def_re,
      dSeverity = SeverityLow, dConfidence = 55/100\<rparr>,
     \<lparr>dTyp = ''code.python_class'', dPattern = python_class_re,
      dSeverity = SeverityMedium, dConfidence = 80/100\<rparr>,
     \<lparr>dTyp = ''code.python_class'', dPattern = pseudo_class_re,
      dSeverity = SeverityLow, dConfidence = 55/100\<rparr>,
     \<lparr>dTyp = ''code.python_import'', dPattern = python_import_re,
      dSeverity = SeverityMedium, dConfidence = 75/100\<rparr>,
     \<lparr>dTyp = ''code.javascript_function'', dPattern = js_function_re,
      dSeverity = SeverityMedium, dConfidence = 85/100\<rparr>,
     \<lparr>dTyp = ''code.javascript_arrow'', dPattern = js_arrow_re,
      dSeverity = SeverityLow, dConfidence = 55/100\<rparr>,
     \<lparr>dTyp = ''code.javascript_require'', dPattern = js_require_re,
      dSeverity = SeverityMedium, dConfidence = 90/100\<rparr>,
     \<lparr>dTyp = ''code.javascript_console'', dPattern = js_console_re,
      dSeverity = SeverityLow, dConfidence = 80/100\<rparr>,
     \<lparr>dTyp = ''code.go_func'', dPattern = go_func_re,
      dSeverity = SeverityMedium, dConfidence = 85/100\<rparr>,
     \<lparr>dTyp = ''code.go_package'', dPattern = go_package_re,
      dSeverity = SeverityMedium, dConfidence = 95/100\<rparr>,
     \<lparr>dTyp = ''code.c_include'', dPattern = c_include_re,
      dSeverity = SeverityMedium, dConfidence = 95/100\<rparr>,
     \<lparr>dTyp = ''code.java_class_decl'', dPattern = java_class_re,
      dSeverity = SeverityMedium, dConfidence = 90/100\<rparr>,
     \<lparr>dTyp = ''code.shebang'', dPattern = shebang_re,
      dSeverity = SeverityMedium, dConfidence = 95/100\<rparr>,
     \<lparr>dTyp = ''code.sql_create'', dPattern = sql_create_re,
      dSeverity = SeverityMedium, dConfidence = 85/100\<rparr>]"

definition code_accept :: "detector \<Rightarrow> bytes \<Rightarrow> nat \<times> nat \<Rightarrow> bool" where
  "code_accept d data idx = True"

definition code_Scan :: "bytes \<Rightarrow> hints \<Rightarrow> finding list \<times> go_error option" where
  "code_Scan data h =
     (if data = [] then ([], None)
      else (concat (map (detect code_accept code_Name data) code_detectors), None))"

definition code_New :: scanner where
  "code_New = \<lparr>scName = code_Name, scAccepts = Some True, scScan = code_Scan\<rparr>"

interpretation code_sc: typed_scanner code_Name code_detectors code_accept code_Scan
proof
  show "list_all (\<lambda>d. \<not> nullable (dPattern d)) code_detectors"
    by code_simp
  show "list_all typed_detector code_detectors"
    by (simp add: code_detectors_def typed_detector_def severity_defs)
qed (simp add: code_Scan_def)

end
