(* ===== verification/Go_Net.thy ===== *)
theory Go_Net
  imports Prelude
begin

text \<open>
  The string and network functions of Go's standard library that the certificate store, the proxy
  and the commands call: \<open>strings.ToLower\<close>, \<open>net.SplitHostPort\<close>, \<open>net.ParseIP\<close>.
  Strings are lists of bytes written as characters.  Lower-casing of non-ASCII text needs the
  Unicode tables and is the parameter \<open>uni\<close>.
\<close>

subsection \<open>Case and position\<close>

fun Split :: "string \<Rightarrow> char \<Rightarrow> string list" where
  "Split [] sep = [[]]"
| "Split (c # s) sep =
     (if c = sep then [] # Split s sep
      else case Split s sep of [] \<Rightarrow> [[c]] | t # ts \<Rightarrow> (c # t) # ts)"

definition lower_char :: "char \<Rightarrow> char" where
  "lower_char c =
     (let n = (of_char c :: nat) in if 65 \<le> n \<and> n \<le> 90 then char_of (n + 32) else c)"

definition is_ascii :: "string \<Rightarrow> bool" where
  "is_ascii s = list_all (\<lambda>c. (of_char c :: nat) < 128) s"

definition ToLower :: "(string \<Rightarrow> string) \<Rightarrow> string \<Rightarrow> string" where
  "ToLower uni s = (if is_ascii s then map lower_char s else uni s)"

fun IndexByte :: "string \<Rightarrow> char \<Rightarrow> nat option" where
  "IndexByte [] c = None"
| "IndexByte (x # xs) c = (if x = c then Some 0 else map_option Suc (IndexByte xs c))"

definition LastIndexByte :: "string \<Rightarrow> char \<Rightarrow> nat option" where
  "LastIndexByte s c =
     map_option (\<lambda>k. length s - 1 - k) (IndexByte (rev s) c)"

lemma lower_char_idem [simp]: "lower_char (lower_char c) = lower_char c"
  by (simp add: lower_char_def Let_def)

lemma lower_char_ascii: "(of_char c :: nat) < 128 \<Longrightarrow> (of_char (lower_char c) :: nat) < 128"
  by (simp add: lower_char_def Let_def)

lemma lower_char_other:
  assumes "\<not> (65 \<le> (of_char d :: nat) \<and> of_char d \<le> (90 :: nat))"
    "\<not> (97 \<le> (of_char d :: nat) \<and> of_char d \<le> (122 :: nat))"
  shows "lower_char c = d \<longleftrightarrow> c = d"
proof (cases "65 \<le> (of_char c :: nat) \<and> of_char c \<le> (90 :: nat)")
  case True
  then have "lower_char c = char_of (of_char c + 32 :: nat)"
    by (simp add: lower_char_def Let_def)
  then have "(of_char (lower_char c) :: nat) = of_char c + 32"
    using True by simp
  then show ?thesis
    using assms True by auto
qed (auto simp: lower_char_def Let_def)

lemma lower_char_sep [simp]:
  "lower_char c = CHR '':'' \<longleftrightarrow> c = CHR '':''"
  "lower_char c = CHR ''['' \<longleftrightarrow> c = CHR ''[''"
  "lower_char c = CHR '']'' \<longleftrightarrow> c = CHR '']''"
  by (simp_all add: lower_char_other)

lemma lower_char_img:
  assumes "\<And>c. lower_char c = d \<longleftrightarrow> c = d"
  shows "d \<in> lower_char ` A \<longleftrightarrow> d \<in> A"
proof
  assume "d \<in> lower_char ` A"
  then obtain c where "c \<in> A" "lower_char c = d" by auto
  then show "d \<in> A" using assms by simp
next
  assume "d \<in> A"
  moreover have "lower_char d = d" using assms by simp
  ultimately show "d \<in> lower_char ` A" by (metis imageI)
qed

lemma lower_char_set [simp]:
  "CHR '':'' \<in> lower_char ` A \<longleftrightarrow> CHR '':'' \<in> A"
  "CHR ''['' \<in> lower_char ` A \<longleftrightarrow> CHR ''['' \<in> A"
  "CHR '']'' \<in> lower_char ` A \<longleftrightarrow> CHR '']'' \<in> A"
  by (simp_all add: lower_char_img)

lemma IndexByte_None: "IndexByte s c = None \<longleftrightarrow> c \<notin> set s"
  by (induction s) auto

lemma IndexByte_append:
  "c \<notin> set xs \<Longrightarrow> IndexByte (xs @ c # ys) c = Some (length xs)"
  by (induction xs) auto

lemma LastIndexByte_None: "LastIndexByte s c = None \<longleftrightarrow> c \<notin> set s"
  by (simp add: LastIndexByte_def IndexByte_None)

lemma LastIndexByte_append:
  "c \<notin> set ys \<Longrightarrow> LastIndexByte (xs @ c # ys) c = Some (length xs)"
  using IndexByte_append [of c "rev ys" "rev xs"] by (simp add: LastIndexByte_def)

subsection \<open>Host and port\<close>

definition SplitHostPort :: "string \<Rightarrow> go_error + (string \<times> string)" where
  "SplitHostPort hostport =
     (let addrErr = (\<lambda>why. Inl (GoErr ''address %s: %s'' [hostport, why])) in
      case LastIndexByte hostport CHR '':'' of
        None \<Rightarrow> addrErr ''missing port in address''
      | Some i \<Rightarrow>
          let finish = (\<lambda>host j k.
                if IndexByte (drop j hostport) CHR ''['' \<noteq> None
                then addrErr ''unexpected '[' in address''
                else if IndexByte (drop k hostport) CHR '']'' \<noteq> None
                then addrErr ''unexpected ']' in address''
                else Inr (host, drop (i + 1) hostport)) in
          if hd hostport = CHR ''['' then
            (case IndexByte hostport CHR '']'' of
               None \<Rightarrow> addrErr ''missing ']' in address''
             | Some e \<Rightarrow>
                 if e + 1 = length hostport then addrErr ''missing port in address''
                 else if e + 1 = i then finish (slice 1 e hostport) 1 (e + 1)
                 else if hostport ! (e + 1) = CHR '':''
                 then addrErr ''too many colons in address''
                 else addrErr ''missing port in address'')
          else
            let host = take i hostport in
            if IndexByte host CHR '':'' \<noteq> None then addrErr ''too many colons in address''
            else finish host 0 0)"

text \<open>\<open>host:port\<close> splits into its parts, with or without brackets around the host.\<close>

lemma SplitHostPort_plain:
  assumes "set host \<inter> {CHR '':'', CHR ''['', CHR '']''} = {}"
    "set port \<inter> {CHR '':'', CHR ''['', CHR '']''} = {}"
  shows "SplitHostPort (host @ CHR '':'' # port) = Inr (host, port)"
proof -
  have "LastIndexByte (host @ CHR '':'' # port) CHR '':'' = Some (length host)"
    using assms(2) by (intro LastIndexByte_append) auto
  moreover have "hd (host @ CHR '':'' # port) \<noteq> CHR ''[''"
    using assms(1) by (cases host) auto
  moreover have "IndexByte host CHR '':'' = None"
      "IndexByte (host @ CHR '':'' # port) CHR ''['' = None"
      "IndexByte (host @ CHR '':'' # port) CHR '']'' = None"
    using assms by (auto simp: IndexByte_None)
  ultimately show ?thesis
    by (simp add: SplitHostPort_def Let_def)
qed

lemma SplitHostPort_bracket:
  assumes "set host \<inter> {CHR ''['', CHR '']''} = {}"
    "set port \<inter> {CHR '':'', CHR ''['', CHR '']''} = {}"
  shows "SplitHostPort (CHR ''['' # host @ CHR '']'' # CHR '':'' # port) = Inr (host, port)"
proof -
  let ?s = "CHR ''['' # host @ CHR '']'' # CHR '':'' # port"
  have "LastIndexByte ?s CHR '':'' = Some (length host + 2)"
    using LastIndexByte_append [of "CHR '':''" port "CHR ''['' # host @ [CHR '']'']"] assms(2) by auto
  moreover have "IndexByte ?s CHR '']'' = Some (length host + 1)"
    using IndexByte_append [of "CHR '']''" "CHR ''['' # host"] assms(1) by auto
  moreover have "IndexByte (drop 1 ?s) CHR ''['' = None"
      "IndexByte (drop (length host + 2) ?s) CHR '']'' = None"
    using assms by (auto simp: IndexByte_None)
  moreover have "slice 1 (length host + 1) ?s = host" "drop (length host + 3) ?s = port"
    by (simp_all add: slice_def numeral_3_eq_3)
  ultimately show ?thesis
    by (simp add: SplitHostPort_def Let_def)
qed

lemma SplitHostPort_no_colon: "CHR '':'' \<notin> set s \<Longrightarrow> \<exists>e. SplitHostPort s = Inl e"
  using LastIndexByte_None [of s "CHR '':''"] by (simp add: SplitHostPort_def Let_def)


subsection \<open>Addresses\<close>

text \<open>
  \<open>net.ParseIP\<close>, which is \<open>netip.ParseAddr\<close> without zones: the sixteen bytes of the
  address, or \<open>None\<close>.  The loops are those of the library; \<open>first\<close> says that the
  scan of a dotted address is at its first byte.
\<close>

definition dec_value :: "char \<Rightarrow> int option" where
  "dec_value c = (let n = (of_char c :: int) in if 48 \<le> n \<and> n \<le> 57 then Some (n - 48) else None)"

definition hex_value :: "char \<Rightarrow> int option" where
  "hex_value c =
     (let n = (of_char c :: int) in
      if 48 \<le> n \<and> n \<le> 57 then Some (n - 48)
      else if 97 \<le> n \<and> n \<le> 102 then Some (n - 87)
      else if 65 \<le> n \<and> n \<le> 70 then Some (n - 55)
      else None)"

fun parseIPv4Fields :: "string \<Rightarrow> int \<Rightarrow> nat \<Rightarrow> int list \<Rightarrow> int list option" where
  "parseIPv4Fields [] val digLen fields =
     (if length fields < 3 then None else Some (fields @ [val]))"
| "parseIPv4Fields (c # s) val digLen fields =
     (case dec_value c of
        Some d \<Rightarrow>
          if digLen = 1 \<and> val = 0 then None
          else if val * 10 + d > 255 then None
          else parseIPv4Fields s (val * 10 + d) (digLen + 1) fields
      | None \<Rightarrow>
          if c = CHR ''.'' then
            if digLen = 0 \<or> s = [] \<or> length fields = 3 then None
            else parseIPv4Fields s 0 0 (fields @ [val])
          else None)"

text \<open>The hexadecimal group at the front: its value, its length and the rest of the text.\<close>

fun hex_group :: "string \<Rightarrow> nat \<Rightarrow> int \<Rightarrow> (int \<times> nat \<times> string) option" where
  "hex_group [] off acc = Some (acc, off, [])"
| "hex_group (c # s) off acc =
     (case hex_value c of
        None \<Rightarrow> Some (acc, off, c # s)
      | Some d \<Rightarrow> if off > 3 \<or> acc * 16 + d > 65535 then None else hex_group s (off + 1) (acc * 16 + d))"

lemma hex_group_length:
  "hex_group s off acc = Some (v, n, rest) \<Longrightarrow> length rest + n = length s + off"
  by (induction s off acc rule: hex_group.induct) (auto split: option.splits if_splits)

definition ipv6_expand :: "int list \<Rightarrow> nat option \<Rightarrow> string \<Rightarrow> int list option" where
  "ipv6_expand ip ellipsis s =
     (if s \<noteq> [] then None
      else if length ip < 16 then
        (case ellipsis of
           None \<Rightarrow> None
         | Some e \<Rightarrow> Some (take e ip @ replicate (16 - length ip) 0 @ drop e ip))
      else if ellipsis \<noteq> None then None else Some ip)"

function parseIPv6_loop :: "string \<Rightarrow> int list \<Rightarrow> nat option \<Rightarrow> int list option" where
  "parseIPv6_loop s ip ellipsis =
     (if \<not> length ip < 16 then ipv6_expand ip ellipsis s
      else case hex_group s 0 0 of
             None \<Rightarrow> None
           | Some (acc, off, rest) \<Rightarrow>
               if off = 0 then None
               else if rest \<noteq> [] \<and> hd rest = CHR ''.'' then
                 if ellipsis = None \<and> length ip \<noteq> 12 \<or> length ip + 4 > 16 then None
                 else (case parseIPv4Fields s 0 0 [] of
                         None \<Rightarrow> None
                       | Some fs \<Rightarrow> ipv6_expand (ip @ fs) ellipsis [])
               else
                 let ip' = ip @ [acc div 256, acc mod 256] in
                 (case rest of
                    [] \<Rightarrow> ipv6_expand ip' ellipsis []
                  | c # t \<Rightarrow>
                      if c \<noteq> CHR '':'' \<or> t = [] then None
                      else if hd t = CHR '':'' then
                        if ellipsis \<noteq> None then None
                        else if tl t = [] then ipv6_expand ip' (Some (length ip')) []
                        else parseIPv6_loop (tl t) ip' (Some (length ip'))
                      else parseIPv6_loop t ip' ellipsis))"
  by pat_completeness auto
termination
  by (relation "measure (\<lambda>(s, ip, ellipsis). 16 - length ip)") auto

declare parseIPv6_loop.simps [simp del]

definition parseIPv6 :: "string \<Rightarrow> int list option" where
  "parseIPv6 s =
     (if take 2 s = ''::'' then
        if length s = 2 then Some (replicate 16 0) else parseIPv6_loop (drop 2 s) [] (Some 0)
      else parseIPv6_loop s [] None)"

fun ParseIP_from :: "string \<Rightarrow> string \<Rightarrow> int list option" where
  "ParseIP_from s [] = None"
| "ParseIP_from s (c # cs) =
     (if c = CHR ''.'' then
        map_option (\<lambda>f. replicate 10 0 @ [255, 255] @ f) (parseIPv4Fields s 0 0 [])
      else if c = CHR '':'' then
        (if CHR ''%'' \<in> set s then None else parseIPv6 s)
      else if c = CHR ''%'' then None
      else ParseIP_from s cs)"

definition ParseIP :: "string \<Rightarrow> int list option" where
  "ParseIP s = ParseIP_from s s"

text \<open>A name without dots and colons is never an address.\<close>

lemma ParseIP_name:
  assumes "CHR ''.'' \<notin> set s" "CHR '':'' \<notin> set s"
  shows "ParseIP s = None"
proof -
  have "set cs \<subseteq> set s \<Longrightarrow> ParseIP_from s cs = None" for cs
    using assms by (induction cs) auto
  then show ?thesis by (simp add: ParseIP_def)
qed

lemma length_parseIPv4Fields:
  "parseIPv4Fields s val digLen fields = Some fs \<Longrightarrow> length fields \<le> 3 \<Longrightarrow> length fs = 4"
  by (induction s val digLen fields rule: parseIPv4Fields.induct)
    (auto split: option.splits if_splits)

lemma ParseIP_examples:
  "ParseIP ''10.0.255.1'' = Some (replicate 10 0 @ [255, 255, 10, 0, 255, 1])"
  "ParseIP ''1.2.3.256'' = None" "ParseIP ''01.2.3.4'' = None" "ParseIP ''1.2.3'' = None"
  "ParseIP ''::1'' = Some (replicate 15 0 @ [1])"
  "ParseIP ''fe80::1:2'' = Some ([254, 128] @ replicate 11 0 @ [1, 0, 2])"
  "ParseIP ''fe80::1%eth0'' = None" "ParseIP ''1::2::3'' = None"
  "ParseIP ''::ffff:1.2.3.4'' = Some (replicate 10 0 @ [255, 255, 1, 2, 3, 4])"
  by code_simp+

end
