(* ===== verification/Cert_Store.thy ===== *)
theory Cert_Store
  imports Go_Net
begin

text \<open>
  The certificate store, \<open>src/internal/ca/store.go\<close>: signing of per-host leaf certificates and
  the LRU cache that keeps them.  The cache is modelled as it is built, a map from hosts to list
  elements and a doubly linked list of elements (its order of element identities and a heap of
  their values), and refined to a list of entries, most recent first.  The X.509 library (signing,
  parsing, public keys) is a record of functions that stays the same over the life of a store; the
  random source and the clock are parameters of each call of \<open>signLeaf\<close>.
\<close>

subsection \<open>Certificates\<close>

text \<open>Keys are kept as opaque key material; a nil pointer is \<open>None\<close>.\<close>

type_synonym private_key = bytes
type_synonym public_key = bytes

record x509 =
  xRaw :: bytes
  xCommonName :: string
  xDNSNames :: "string list"
  xIPAddresses :: "int list list"
  xNotBefore :: int
  xNotAfter :: int
  xPublicKey :: public_key

record leaf_template =
  ltSerial :: int
  ltCommonName :: string
  ltOrganization :: "string list"
  ltNotBefore :: int
  ltNotAfter :: int
  ltKeyUsage :: int
  ltExtKeyUsage :: "int list"
  ltDNSNames :: "string list"
  ltIPAddresses :: "int list list"

record tls_cert =
  tcChain :: "bytes list"
  tcPrivateKey :: private_key
  tcLeaf :: x509

text \<open>
  What the store uses of \<open>crypto\<close> and \<open>crypto/x509\<close>: the public half of a key,
  \<open>x509.CreateCertificate\<close> (entropy, template, parent, subject's public key, signing key) and
  \<open>x509.ParseCertificate\<close>.
\<close>

record x509_lib =
  xlPublic :: "private_key \<Rightarrow> public_key"
  xlCreate :: "bytes \<Rightarrow> leaf_template \<Rightarrow> x509 \<Rightarrow> public_key \<Rightarrow> private_key \<Rightarrow> go_error + bytes"
  xlParse :: "bytes \<Rightarrow> go_error + x509"

text \<open>What one call of \<open>signLeaf\<close> meets: the random number, the clock (read twice), the entropy.\<close>

record sign_env =
  seRand :: "int \<Rightarrow> go_error + int"
  seNow1 :: int
  seNow2 :: int
  seEntropy :: bytes
  seLib :: x509_lib

unbundle bit_operations_syntax

text \<open>Durations are in nanoseconds.\<close>

definition hour :: int where
  "hour = 3600 * 10 ^ 9"

definition leafValidity :: int where
  "leafValidity = 30 * 24 * hour"

definition randomSerial :: "(int \<Rightarrow> go_error + int) \<Rightarrow> go_error + int" where
  "randomSerial rnd =
     (case rnd (2 ^ 128) of
        Inl err \<Rightarrow> Inl (WrapErr ''ca: random serial: %w'' err)
      | Inr n \<Rightarrow> Inr n)"

text \<open>The constants of \<open>crypto/x509\<close>.\<close>

definition KeyUsageDigitalSignature :: int where "KeyUsageDigitalSignature = 1"
definition KeyUsageKeyEncipherment :: int where "KeyUsageKeyEncipherment = 4"
definition ExtKeyUsageServerAuth :: int where "ExtKeyUsageServerAuth = 1"

definition leaf_for_host :: "sign_env \<Rightarrow> string \<Rightarrow> string \<Rightarrow> int \<Rightarrow> leaf_template" where
  "leaf_for_host env org host serial =
     (let template = \<lparr>ltSerial = serial, ltCommonName = host, ltOrganization = [org],
            ltNotBefore = seNow1 env - hour, ltNotAfter = seNow2 env + leafValidity,
            ltKeyUsage = KeyUsageDigitalSignature OR KeyUsageKeyEncipherment,
            ltExtKeyUsage = [ExtKeyUsageServerAuth], ltDNSNames = [], ltIPAddresses = []\<rparr> in
      case ParseIP host of
        Some ip \<Rightarrow> template\<lparr>ltIPAddresses := [ip]\<rparr>
      | None \<Rightarrow> template\<lparr>ltDNSNames := [host]\<rparr>)"

subsection \<open>The store\<close>

record cache_entry =
  ceHost :: string
  ceCert :: tls_cert

text \<open>\<open>elems\<close> is the heap of list elements, \<open>fresh\<close> the next unused element.\<close>

record store =
  rootCert :: x509
  rootKey :: private_key
  leafKey :: private_key
  org :: string
  capacity :: int
  items :: "string \<rightharpoonup> nat"
  order :: "nat list"
  elems :: "nat \<Rightarrow> cache_entry"
  fresh :: nat

definition no_cert :: tls_cert where
  "no_cert = \<lparr>tcChain = [], tcPrivateKey = [], tcLeaf = \<lparr>xRaw = [], xCommonName = [], xDNSNames = [],
     xIPAddresses = [], xNotBefore = 0, xNotAfter = 0, xPublicKey = []\<rparr>\<rparr>"

record root =
  rtCert :: "x509 option"
  rtKey :: "private_key option"

text \<open>The first argument is the result of \<open>ecdsa.GenerateKey\<close>.\<close>

definition NewStore ::
  "(go_error + private_key) \<Rightarrow> root option \<Rightarrow> int \<Rightarrow> string \<Rightarrow> go_error + store" where
  "NewStore genKey rt cacheSize orgName =
     (case rt of
        None \<Rightarrow> Inl (GoErr ''ca: store requires a populated Root'' [])
      | Some r \<Rightarrow>
          (case rtCert r of
             None \<Rightarrow> Inl (GoErr ''ca: store requires a populated Root'' [])
           | Some cert \<Rightarrow>
               (case rtKey r of
                  None \<Rightarrow> Inl (GoErr ''ca: store requires a populated Root'' [])
                | Some key \<Rightarrow>
                    (case genKey of
                       Inl err \<Rightarrow> Inl (WrapErr ''ca: generate leaf key: %w'' err)
                     | Inr lk \<Rightarrow>
                         Inr \<lparr>rootCert = cert, rootKey = key, leafKey = lk,
                              org = (if orgName = [] then xCommonName cert else orgName),
                              capacity = cacheSize, items = Map.empty, order = [],
                              elems = (\<lambda>e. \<lparr>ceHost = [], ceCert = no_cert\<rparr>), fresh = 0\<rparr>))))"

definition signLeaf :: "sign_env \<Rightarrow> store \<Rightarrow> string \<Rightarrow> go_error + tls_cert" where
  "signLeaf env s host =
     (case randomSerial (seRand env) of
        Inl err \<Rightarrow> Inl err
      | Inr serial \<Rightarrow>
          (case xlCreate (seLib env) (seEntropy env) (leaf_for_host env (org s) host serial)
                  (rootCert s) (xlPublic (seLib env) (leafKey s)) (rootKey s) of
             Inl err \<Rightarrow> Inl (WrapErr (''ca: sign leaf for '' @ host @ '': %w'') err)
           | Inr derBytes \<Rightarrow>
               (case xlParse (seLib env) derBytes of
                  Inl err \<Rightarrow> Inl (WrapErr ''ca: parse leaf: %w'' err)
                | Inr parsed \<Rightarrow>
                    Inr \<lparr>tcChain = [derBytes, xRaw (rootCert s)], tcPrivateKey = leafKey s,
                         tcLeaf = parsed\<rparr>)))"

definition MoveToFront :: "nat \<Rightarrow> nat list \<Rightarrow> nat list" where
  "MoveToFront e es = e # remove1 e es"

definition cacheGet :: "string \<Rightarrow> store \<Rightarrow> tls_cert option \<times> store" where
  "cacheGet key s =
     (if capacity s \<le> 0 then (None, s)
      else case items s key of
             None \<Rightarrow> (None, s)
           | Some e \<Rightarrow> (Some (ceCert (elems s e)), s\<lparr>order := MoveToFront e (order s)\<rparr>))"

text \<open>The eviction loop: while the list is longer than the capacity, drop its last element.\<close>

function evict :: "store \<Rightarrow> store" where
  "evict s =
     (if int (length (order s)) > capacity s then
        if order s = [] then s
        else let oldest = last (order s) in
             evict (s\<lparr>order := butlast (order s),
                      items := (items s)(ceHost (elems s oldest) := None)\<rparr>)
      else s)"
  by pat_completeness auto
termination
  by (relation "measure (\<lambda>s. length (order s))") (auto simp: neq_Nil_conv)

declare evict.simps [simp del]

definition cachePut :: "string \<Rightarrow> tls_cert \<Rightarrow> store \<Rightarrow> store" where
  "cachePut key cert s =
     (if capacity s \<le> 0 then s
      else case items s key of
             Some e \<Rightarrow>
               s\<lparr>order := MoveToFront e (order s), elems := (elems s)(e := (elems s e)\<lparr>ceCert := cert\<rparr>)\<rparr>
           | None \<Rightarrow>
               let e = fresh s in
               evict (s\<lparr>order := e # order s,
                        elems := (elems s)(e := \<lparr>ceHost = key, ceCert = cert\<rparr>),
                        items := (items s)(key \<mapsto> e), fresh := Suc e\<rparr>))"

definition normalizeHost :: "(string \<Rightarrow> string) \<Rightarrow> string \<Rightarrow> string" where
  "normalizeHost uni h =
     (let h' = ToLower uni h in
      case SplitHostPort h' of Inr (host, port) \<Rightarrow> host | Inl err \<Rightarrow> h')"

definition LeafFor ::
  "(string \<Rightarrow> string) \<Rightarrow> sign_env \<Rightarrow> string \<Rightarrow> store \<Rightarrow> (go_error + tls_cert) \<times> store" where
  "LeafFor uni env host s =
     (let key = normalizeHost uni host in
      case cacheGet key s of
        (Some cert, s') \<Rightarrow> (Inr cert, s')
      | (None, s') \<Rightarrow>
          (case signLeaf env s' key of
             Inl err \<Rightarrow> (Inl err, s')
           | Inr cert \<Rightarrow> (Inr cert, cachePut key cert s')))"

definition CacheLen :: "store \<Rightarrow> nat" where
  "CacheLen s = length (order s)"


subsection \<open>The cache contract\<close>

text \<open>An LRU cache of \<open>n\<close> entries as a list, most recently used first.\<close>

definition touch :: "'k \<Rightarrow> 'v \<Rightarrow> ('k \<times> 'v) list \<Rightarrow> ('k \<times> 'v) list" where
  "touch k v xs = (k, v) # filter (\<lambda>p. fst p \<noteq> k) xs"

definition lru_get :: "'k \<Rightarrow> ('k \<times> 'v) list \<Rightarrow> 'v option \<times> ('k \<times> 'v) list" where
  "lru_get k xs =
     (case map_of xs k of None \<Rightarrow> (None, xs) | Some v \<Rightarrow> (Some v, touch k v xs))"

definition lru_put :: "nat \<Rightarrow> 'k \<Rightarrow> 'v \<Rightarrow> ('k \<times> 'v) list \<Rightarrow> ('k \<times> 'v) list" where
  "lru_put n k v xs = (if map_of xs k \<noteq> None then touch k v xs else take n ((k, v) # xs))"

lemma map_of_touch: "map_of (touch k v xs) j = (if j = k then Some v else map_of xs j)"
  by (induction xs) (auto simp: touch_def)

lemma map_of_take: "map_of (take n xs) j = Some v \<Longrightarrow> distinct (map fst xs) \<Longrightarrow> map_of xs j = Some v"
  by (metis in_set_takeD map_of_is_SomeI map_of_SomeD)

locale lru_cache =
  fixes get :: "'k \<Rightarrow> 's \<Rightarrow> 'v option \<times> 's"
    and put :: "'k \<Rightarrow> 'v \<Rightarrow> 's \<Rightarrow> 's"
    and contents :: "'s \<Rightarrow> ('k \<times> 'v) list"
    and room :: "'s \<Rightarrow> nat"
    and ok :: "'s \<Rightarrow> bool"
  assumes ok_get: "ok s \<Longrightarrow> ok (snd (get k s))"
    and ok_put: "ok s \<Longrightarrow> ok (put k v s)"
    and room_get: "room (snd (get k s)) = room s"
    and room_put: "room (put k v s) = room s"
    and get_refines: "ok s \<Longrightarrow> (fst (get k s), contents (snd (get k s))) = lru_get k (contents s)"
    and put_refines: "ok s \<Longrightarrow> contents (put k v s) = lru_put (room s) k v (contents s)"
    and contents_bound: "ok s \<Longrightarrow> length (contents s) \<le> room s"
    and contents_keys: "ok s \<Longrightarrow> distinct (map fst (contents s))"
begin

lemma get_result: "ok s \<Longrightarrow> fst (get k s) = map_of (contents s) k"
  using get_refines [of s k] by (auto simp: lru_get_def split: option.splits)

lemma get_contents:
  "ok s \<Longrightarrow> contents (snd (get k s)) =
    (case map_of (contents s) k of None \<Rightarrow> contents s | Some v \<Rightarrow> touch k v (contents s))"
  using get_refines [of s k] by (auto simp: lru_get_def split: option.splits)

text \<open>Looking something up forgets nothing.\<close>

lemma get_keeps: "ok s \<Longrightarrow> map_of (contents (snd (get k s))) = map_of (contents s)"
  by (rule ext) (auto simp: get_contents map_of_touch split: option.splits)

lemma get_put_same:
  assumes "ok s" "0 < room s"
  shows "fst (get k (put k v s)) = Some v"
proof -
  have "map_of (lru_put (room s) k v (contents s)) k = Some v"
    using assms(2) by (cases "room s") (auto simp: lru_put_def map_of_touch)
  then show ?thesis
    using assms(1) by (simp add: get_result ok_put put_refines)
qed

text \<open>Storing one key never changes what another key finds, except that it may be evicted.\<close>

lemma get_put_other:
  assumes "ok s" "j \<noteq> k" "fst (get j (put k v s)) = Some w"
  shows "fst (get j s) = Some w"
proof (cases "map_of (contents s) k")
  case None
  then have "distinct (map fst ((k, v) # contents s))"
    using contents_keys [OF assms(1)] by (auto simp: map_of_eq_None_iff)
  moreover have "map_of (take (room s) ((k, v) # contents s)) j = Some w"
    using assms(1,3) None by (simp add: get_result ok_put put_refines lru_put_def)
  ultimately show ?thesis
    using map_of_take assms(1,2) by (fastforce simp: get_result)
next
  case (Some u)
  then show ?thesis
    using assms by (simp add: get_result ok_put put_refines lru_put_def map_of_touch)
qed

end


subsection \<open>The invariant of the store\<close>

text \<open>The map and the list agree: \<open>items\<close> finds exactly the listed elements, by their hosts.\<close>

definition linked :: "store \<Rightarrow> bool" where
  "linked s \<longleftrightarrow> distinct (order s) \<and> (\<forall>e\<in>set (order s). e < fresh s) \<and>
     (\<forall>k e. items s k = Some e \<longleftrightarrow> e \<in> set (order s) \<and> ceHost (elems s e) = k)"

definition store_ok :: "store \<Rightarrow> bool" where
  "store_ok s \<longleftrightarrow> linked s \<and> length (order s) \<le> nat (capacity s)"

definition entry_of :: "store \<Rightarrow> nat \<Rightarrow> string \<times> tls_cert" where
  "entry_of s e = (ceHost (elems s e), ceCert (elems s e))"

definition entries :: "store \<Rightarrow> (string \<times> tls_cert) list" where
  "entries s = map (entry_of s) (order s)"

lemma linkedD:
  assumes "linked s"
  shows "distinct (order s)" "e \<in> set (order s) \<Longrightarrow> e < fresh s"
    "items s k = Some e \<longleftrightarrow> e \<in> set (order s) \<and> ceHost (elems s e) = k"
  using assms unfolding linked_def by blast+

lemma linked_items: "linked s \<Longrightarrow> e \<in> set (order s) \<Longrightarrow> items s (ceHost (elems s e)) = Some e"
  by (simp add: linkedD(3))

lemma linked_hosts: "linked s \<Longrightarrow> inj_on (\<lambda>e. ceHost (elems s e)) (set (order s))"
  by (rule inj_onI) (metis linked_items option.inject)

lemma entries_keys: "linked s \<Longrightarrow> distinct (map fst (entries s))"
  using linked_hosts linkedD(1)
  by (fastforce simp: entries_def entry_of_def comp_def distinct_map)

lemma map_of_entries: "linked s \<Longrightarrow> map_of (entries s) k = map_option (\<lambda>e. ceCert (elems s e)) (items s k)"
proof (cases "items s k")
  case None
  assume l: "linked s"
  then have "k \<notin> fst ` set (entries s)"
    using None linked_items [OF l] by (auto simp: entries_def entry_of_def)
  then show ?thesis
    using None by (simp add: map_of_eq_None_iff)
next
  case (Some e)
  assume l: "linked s"
  then have "(k, ceCert (elems s e)) \<in> set (entries s)"
    using Some linkedD(3) [OF l, of k e] by (force simp: entries_def entry_of_def)
  then show ?thesis
    using Some entries_keys [OF l] by simp
qed

lemma entries_without:
  assumes "linked s" "items s k = Some e"
  shows "filter (\<lambda>p. fst p \<noteq> k) (entries s) = map (entry_of s) (remove1 e (order s))"
proof -
  have "ceHost (elems s e') = k \<longleftrightarrow> e' = e" if "e' \<in> set (order s)" for e'
    using linked_items [OF assms(1) that] assms(2) linkedD(3) [OF assms(1), of k e]
    by (metis option.inject)
  then have "filter (\<lambda>e'. ceHost (elems s e') \<noteq> k) (order s) = filter ((\<noteq>) e) (order s)"
    by (intro filter_cong) auto
  then show ?thesis
    using distinct_remove1_removeAll [OF linkedD(1) [OF assms(1)], of e]
    by (simp add: entries_def filter_map comp_def entry_of_def removeAll_filter_not_eq)
qed

subsubsection \<open>Eviction\<close>

definition evict_one :: "store \<Rightarrow> store" where
  "evict_one s = s\<lparr>order := butlast (order s),
     items := (items s)(ceHost (elems s (last (order s))) := None)\<rparr>"

lemma set_butlast: "distinct xs \<Longrightarrow> xs \<noteq> [] \<Longrightarrow> set (butlast xs) = set xs - {last xs}"
  by (induction xs rule: rev_induct) auto

lemma linked_evict_one:
  assumes "linked s" "order s \<noteq> []"
  shows "linked (evict_one s)"
proof -
  have sb: "set (butlast (order s)) = set (order s) - {last (order s)}"
    using linkedD(1) [OF assms(1)] assms(2) by (rule set_butlast)
  have "items (evict_one s) k = Some e \<longleftrightarrow> e \<in> set (butlast (order s)) \<and> ceHost (elems s e) = k" for k e
    using linkedD(3) [OF assms(1), of k e] linked_items [OF assms(1), of "last (order s)"] assms(2)
    by (auto simp: evict_one_def sb)
  then show ?thesis
    using linkedD(1,2) [OF assms(1)] sb by (auto simp: linked_def evict_one_def distinct_butlast)
qed

lemma evict_spec:
  assumes "linked s" "0 \<le> capacity s"
  shows "linked (evict s) \<and> order (evict s) = take (nat (capacity s)) (order s) \<and>
    elems (evict s) = elems s \<and> capacity (evict s) = capacity s"
  using assms
proof (induction "length (order s)" arbitrary: s rule: less_induct)
  case less
  show ?case
  proof (cases "capacity s < int (length (order s))")
    case False
    then show ?thesis
      using less.prems by (simp add: evict.simps)
  next
    case True
    then have ne: "order s \<noteq> []"
      using less.prems(2) by auto
    have step: "evict s = evict (evict_one s)"
      using True ne by (subst evict.simps) (simp add: evict_one_def Let_def)
    have "length (order (evict_one s)) < length (order s)" "capacity (evict_one s) = capacity s"
        "elems (evict_one s) = elems s"
      using ne by (simp_all add: evict_one_def)
    moreover have "take (nat (capacity s)) (butlast (order s)) = take (nat (capacity s)) (order s)"
      using True less.prems(2) by (simp add: take_butlast)
    ultimately show ?thesis
      using less.hyps [of "evict_one s"] linked_evict_one [OF less.prems(1) ne] less.prems(2)
      by (simp add: step evict_one_def)
  qed
qed


subsubsection \<open>The operations\<close>

lemma MoveToFront_set: "e \<in> set es \<Longrightarrow> set (MoveToFront e es) = set es"
  by (induction es) (auto simp: MoveToFront_def)

lemma MoveToFront_distinct: "distinct es \<Longrightarrow> distinct (MoveToFront e es)"
  by (simp add: MoveToFront_def)

lemma length_MoveToFront: "e \<in> set es \<Longrightarrow> length (MoveToFront e es) = length es"
  by (cases es) (auto simp: MoveToFront_def length_remove1 dest: length_pos_if_in_set)

lemma linked_move:
  assumes "linked s" "items s k = Some e" "ceHost x = ceHost (elems s e)"
  shows "linked (s\<lparr>order := MoveToFront e (order s), elems := (elems s)(e := x)\<rparr>)"
proof -
  have e: "e \<in> set (order s)"
    using assms(1,2) by (simp add: linkedD(3))
  have host: "ceHost (((elems s)(e := x)) e') = ceHost (elems s e')" for e'
    using assms(3) by simp
  have "items s k = Some e' \<longleftrightarrow> e' \<in> set (order s) \<and> ceHost (elems s e') = k" for k e'
    by (rule linkedD(3) [OF assms(1)])
  then show ?thesis
    using linkedD(1,2) [OF assms(1)] MoveToFront_set [OF e]
    unfolding linked_def by (simp add: MoveToFront_distinct host del: fun_upd_apply)
qed

lemma entries_move:
  assumes "linked s" "items s k = Some e" "ceHost x = ceHost (elems s e)"
  shows "entries (s\<lparr>order := MoveToFront e (order s), elems := (elems s)(e := x)\<rparr>) =
    touch k (ceCert x) (entries s)"
proof -
  have "e \<notin> set (remove1 e (order s))" "ceHost (elems s e) = k"
    using assms(1,2) linkedD(1,3) [OF assms(1)] by simp_all
  then show ?thesis
    unfolding touch_def entries_without [OF assms(1,2)]
    using assms(3) by (auto simp: entries_def entry_of_def MoveToFront_def)
qed

definition push :: "string \<Rightarrow> tls_cert \<Rightarrow> store \<Rightarrow> store" where
  "push key cert s = s\<lparr>order := fresh s # order s,
     elems := (elems s)(fresh s := \<lparr>ceHost = key, ceCert = cert\<rparr>),
     items := (items s)(key \<mapsto> fresh s), fresh := Suc (fresh s)\<rparr>"

lemma linked_push:
  assumes "linked s" "items s key = None"
  shows "linked (push key cert s)" "entries (push key cert s) = (key, cert) # entries s"
proof -
  have new: "e \<noteq> fresh s" if "e \<in> set (order s)" for e
    using linkedD(2) [OF assms(1) that] by simp
  have "items (push key cert s) k = Some e \<longleftrightarrow>
      e \<in> set (order (push key cert s)) \<and> ceHost (elems (push key cert s) e) = k" for k e
    using linkedD(3) [OF assms(1), of k e] linked_items [OF assms(1), of e] new assms(2)
    by (auto simp: push_def)
  moreover have "distinct (order (push key cert s))"
      "\<forall>e\<in>set (order (push key cert s)). e < fresh (push key cert s)"
    using linkedD(1,2) [OF assms(1)] new by (auto simp: push_def less_SucI)
  ultimately show "linked (push key cert s)"
    unfolding linked_def by blast
  show "entries (push key cert s) = (key, cert) # entries s"
    using new by (auto simp: entries_def entry_of_def push_def)
qed

lemma cacheGet_hit:
  assumes "store_ok s" "items s k = Some e"
  shows "cacheGet k s = (Some (ceCert (elems s e)), s\<lparr>order := MoveToFront e (order s)\<rparr>)"
proof -
  have "order s \<noteq> []"
    using assms by (auto simp: store_ok_def linkedD(3))
  then have "0 < capacity s"
    using assms(1) by (cases "order s") (auto simp: store_ok_def)
  then show ?thesis
    using assms(2) by (simp add: cacheGet_def)
qed

lemma move_same: "s\<lparr>order := es\<rparr> = s\<lparr>order := es, elems := (elems s)(e := elems s e)\<rparr>"
  by simp

lemma cacheGet_spec:
  assumes "store_ok s"
  shows "store_ok (snd (cacheGet k s))"
    and "(fst (cacheGet k s), entries (snd (cacheGet k s))) = lru_get k (entries s)"
proof -
  have l: "linked s" using assms by (simp add: store_ok_def)
  have "store_ok (snd (cacheGet k s)) \<and>
      (fst (cacheGet k s), entries (snd (cacheGet k s))) = lru_get k (entries s)"
  proof (cases "items s k")
    case None
    then show ?thesis
      using assms map_of_entries [OF l, of k] by (simp add: cacheGet_def lru_get_def)
  next
    case (Some e)
    then have e: "e \<in> set (order s)" using l by (simp add: linkedD(3))
    show ?thesis
      using linked_move [OF l Some refl] entries_move [OF l Some refl] assms Some
        map_of_entries [OF l, of k] length_MoveToFront [OF e]
      by (simp add: cacheGet_hit lru_get_def store_ok_def)
  qed
  then show "store_ok (snd (cacheGet k s))"
    "(fst (cacheGet k s), entries (snd (cacheGet k s))) = lru_get k (entries s)"
    by blast+
qed

lemma cachePut_spec:
  assumes "store_ok s"
  shows "store_ok (cachePut k c s)"
    and "entries (cachePut k c s) = lru_put (nat (capacity s)) k c (entries s)"
proof -
  have l: "linked s" using assms by (simp add: store_ok_def)
  have "store_ok (cachePut k c s) \<and>
      entries (cachePut k c s) = lru_put (nat (capacity s)) k c (entries s)"
  proof (cases "items s k")
    case (Some e)
    then have e: "e \<in> set (order s)" using l by (simp add: linkedD(3))
    then have "0 < capacity s"
      using assms by (cases "order s") (auto simp: store_ok_def)
    then show ?thesis
      using linked_move [OF l Some, of "(elems s e)\<lparr>ceCert := c\<rparr>"]
        entries_move [OF l Some, of "(elems s e)\<lparr>ceCert := c\<rparr>"] assms Some
        map_of_entries [OF l, of k] length_MoveToFront [OF e]
      by (simp add: cachePut_def lru_put_def store_ok_def)
  next
    case None
    show ?thesis
    proof (cases "capacity s \<le> 0")
      case True
      then show ?thesis
        using assms by (auto simp: cachePut_def lru_put_def store_ok_def entries_def)
    next
      case False
      then have "cachePut k c s = evict (push k c s)"
        using None by (simp add: cachePut_def push_def Let_def)
      moreover have "capacity (push k c s) = capacity s"
        by (simp add: push_def)
      ultimately have put: "store_ok (cachePut k c s)" "elems (cachePut k c s) = elems (push k c s)"
          "order (cachePut k c s) = take (nat (capacity s)) (order (push k c s))"
        using evict_spec [OF linked_push(1) [OF l None, of c]] False by (simp_all add: store_ok_def)
      then have "entries (cachePut k c s) = take (nat (capacity s)) (entries (push k c s))"
        by (simp add: entries_def entry_of_def [abs_def] take_map)
      then show ?thesis
        using put(1) linked_push(2) [OF l None, of c] map_of_entries [OF l, of k] None
        by (simp add: lru_put_def)
    qed
  qed
  then show "store_ok (cachePut k c s)"
    "entries (cachePut k c s) = lru_put (nat (capacity s)) k c (entries s)"
    by blast+
qed

lemma capacity_kept:
  "capacity (snd (cacheGet k s)) = capacity s"
  by (auto simp: cacheGet_def split: option.splits)

lemma evict_capacity: "capacity (evict s) = capacity s"
  by (induction s rule: evict.induct) (subst evict.simps, simp add: Let_def)

lemma capacity_kept_put: "capacity (cachePut k c s) = capacity s"
  by (auto simp: cachePut_def Let_def evict_capacity split: option.splits)

interpretation leaf_cache: lru_cache cacheGet cachePut entries "\<lambda>s. nat (capacity s)" store_ok
proof
  fix s :: store
  assume ok: "store_ok s"
  then show "length (entries s) \<le> nat (capacity s)"
    by (simp add: store_ok_def entries_def)
  show "distinct (map fst (entries s))"
    using ok by (simp add: store_ok_def entries_keys)
qed (simp_all add: cacheGet_spec cachePut_spec capacity_kept capacity_kept_put)


subsection \<open>Leaf certificates\<close>

text \<open>What the store signs with; no operation changes it.\<close>

definition identity :: "store \<Rightarrow> x509 \<times> private_key \<times> private_key \<times> string" where
  "identity s = (rootCert s, rootKey s, leafKey s, org s)"

lemma signLeaf_identity: "identity s' = identity s \<Longrightarrow> signLeaf env s' = signLeaf env s"
  by (rule ext) (simp only: signLeaf_def identity_def prod.inject)

lemma cacheGet_identity [simp]: "identity (snd (cacheGet k s)) = identity s"
  by (simp add: cacheGet_def identity_def split: option.splits)

lemma evict_identity: "identity (evict s) = identity s"
proof (induction s rule: evict.induct)
  case (1 s)
  then show ?case by (subst evict.simps) (simp add: Let_def identity_def)
qed

lemma cachePut_identity [simp]: "identity (cachePut k c s) = identity s"
  by (simp add: cachePut_def Let_def evict_identity split: option.splits) (simp add: identity_def)

lemma LeafFor_cases:
  obtains (hit) cert where "fst (cacheGet (normalizeHost uni host) s) = Some cert"
      "LeafFor uni env host s = (Inr cert, snd (cacheGet (normalizeHost uni host) s))"
  | (failed) err where "fst (cacheGet (normalizeHost uni host) s) = None"
      "LeafFor uni env host s = (Inl err, snd (cacheGet (normalizeHost uni host) s))"
  | (signed) cert where "fst (cacheGet (normalizeHost uni host) s) = None"
      "signLeaf env s (normalizeHost uni host) = Inr cert"
      "LeafFor uni env host s = (Inr cert, cachePut (normalizeHost uni host) cert
        (snd (cacheGet (normalizeHost uni host) s)))"
proof -
  obtain r s' where g: "cacheGet (normalizeHost uni host) s = (r, s')"
    by fastforce
  have "signLeaf env s' = signLeaf env s"
    using cacheGet_identity [of "normalizeHost uni host" s] g by (intro signLeaf_identity) simp
  then show thesis
    using g hit failed signed
    by (cases r; cases "signLeaf env s (normalizeHost uni host)")
      (simp_all add: LeafFor_def Let_def)
qed

lemma LeafFor_ok: "store_ok s \<Longrightarrow> store_ok (snd (LeafFor uni env host s))"
  by (rule LeafFor_cases [of uni host s env]) (simp_all add: cacheGet_spec cachePut_spec)

lemma LeafFor_capacity: "capacity (snd (LeafFor uni env host s)) = capacity s"
  by (rule LeafFor_cases [of uni host s env]) (simp_all add: capacity_kept capacity_kept_put)

lemma LeafFor_cached:
  assumes "store_ok s" "0 < capacity s" "LeafFor uni env host s = (Inr cert, s')"
  shows "map_of (entries s') (normalizeHost uni host) = Some cert"
proof (rule LeafFor_cases [of uni host s env])
  fix c
  assume "fst (cacheGet (normalizeHost uni host) s) = Some c"
    "LeafFor uni env host s = (Inr c, snd (cacheGet (normalizeHost uni host) s))"
  then show ?thesis
    using assms by (simp add: leaf_cache.get_result leaf_cache.get_keeps)
next
  fix c
  assume "LeafFor uni env host s = (Inr c, cachePut (normalizeHost uni host) c
      (snd (cacheGet (normalizeHost uni host) s)))"
  then show ?thesis
    using assms leaf_cache.get_put_same [of "snd (cacheGet (normalizeHost uni host) s)"]
    by (simp add: leaf_cache.get_result cacheGet_spec(1) cachePut_spec(1) capacity_kept)
qed (use assms in simp)

lemma LeafFor_hit:
  assumes "store_ok s" "map_of (entries s) (normalizeHost uni host) = Some cert"
  shows "fst (LeafFor uni env host s) = Inr cert"
  using assms leaf_cache.get_result [of s "normalizeHost uni host"]
  by (cases rule: LeafFor_cases [of uni host s env]) simp_all

text \<open>
  Calls of \<open>LeafFor\<close> release the lock between the lookup and the insertion, so concurrent
  calls interleave lookups and insertions in any order.
\<close>

inductive store_reach :: "int \<Rightarrow> store \<Rightarrow> bool" for cap :: int where
  new: "NewStore genKey rt cap orgName = Inr s \<Longrightarrow> store_reach cap s"
| get: "store_reach cap s \<Longrightarrow> store_reach cap (snd (cacheGet k s))"
| put: "store_reach cap s \<Longrightarrow> store_reach cap (cachePut k c s)"

lemma NewStore_ok: "NewStore genKey rt cap orgName = Inr s \<Longrightarrow> store_ok s \<and> capacity s = cap \<and> entries s = []"
  by (auto simp: NewStore_def store_ok_def linked_def entries_def split: option.splits sum.splits if_splits)

lemma store_reach_ok: "store_reach cap s \<Longrightarrow> store_ok s \<and> capacity s = cap"
  by (induction rule: store_reach.induct)
    (auto simp: NewStore_ok cacheGet_spec cachePut_spec capacity_kept capacity_kept_put)

text \<open>The host of \<open>host:port\<close>.\<close>

lemma normalizeHost_port:
  assumes "is_ascii host" "is_ascii port"
    "set host \<inter> {CHR '':'', CHR ''['', CHR '']''} = {}"
    "set port \<inter> {CHR '':'', CHR ''['', CHR '']''} = {}"
  shows "normalizeHost uni (host @ CHR '':'' # port) = map lower_char host"
proof -
  have "is_ascii (host @ CHR '':'' # port)"
    using assms(1,2) by (simp add: is_ascii_def)
  then have "ToLower uni (host @ CHR '':'' # port) = map lower_char host @ CHR '':'' # map lower_char port"
    by (simp add: ToLower_def lower_char_def)
  moreover have "SplitHostPort (map lower_char host @ CHR '':'' # map lower_char port) =
      Inr (map lower_char host, map lower_char port)"
    using assms(3,4) by (intro SplitHostPort_plain) simp_all
  ultimately show ?thesis
    by (simp add: normalizeHost_def)
qed

lemma normalizeHost_plain:
  assumes "is_ascii host" "CHR '':'' \<notin> set host"
  shows "normalizeHost uni host = map lower_char host"
proof -
  obtain e where "SplitHostPort (map lower_char host) = Inl e"
    using SplitHostPort_no_colon [of "map lower_char host"] assms(2) by force
  then show ?thesis
    using assms(1) by (simp add: normalizeHost_def ToLower_def)
qed


subsection \<open>Properties\<close>

text \<open>A populated root, and a signer that always succeeds at time \<open>now\<close>, to evaluate the store on.\<close>

definition leaf_root :: root where
  "leaf_root = \<lparr>rtCert = Some \<lparr>xRaw = [1], xCommonName = ''tg'', xDNSNames = [], xIPAddresses = [],
     xNotBefore = 0, xNotAfter = 0, xPublicKey = [8]\<rparr>, rtKey = Some [3]\<rparr>"

text \<open>A library that issues for the host \<open>h\<close> and the key \<open>[9]\<close> only.\<close>

definition sample_x509 :: "int \<Rightarrow> x509" where
  "sample_x509 now = \<lparr>xRaw = [2], xCommonName = ''h'', xDNSNames = [''h''], xIPAddresses = [],
     xNotBefore = now - hour, xNotAfter = now + leafValidity, xPublicKey = [9]\<rparr>"

definition sample_x509_lib :: "int \<Rightarrow> x509_lib" where
  "sample_x509_lib now = \<lparr>xlPublic = (\<lambda>k. [9]),
     xlCreate = (\<lambda>rnd t parent pub key.
       if ltCommonName t = ''h'' \<and> ltDNSNames t = [''h''] \<and> ltIPAddresses t = [] \<and> pub = [9]
       then Inr [2] else Inl (GoErr ''refused'' [])),
     xlParse = (\<lambda>der. Inr (sample_x509 now))\<rparr>"

definition sample_env :: "int \<Rightarrow> sign_env" where
  "sample_env now = \<lparr>seRand = (\<lambda>m. Inr 7), seNow1 = now, seNow2 = now, seEntropy = [],
     seLib = sample_x509_lib now\<rparr>"

definition sample_store :: store where
  "sample_store = \<lparr>rootCert = the (rtCert leaf_root), rootKey = [3], leafKey = [5], org = ''tg'',
     capacity = 2, items = Map.empty, order = [],
     elems = (\<lambda>e. \<lparr>ceHost = [], ceCert = no_cert\<rparr>), fresh = 0\<rparr>"

lemma sample_store_new: "NewStore (Inr [5]) (Some leaf_root) 2 [] = Inr sample_store"
  by (simp add: NewStore_def leaf_root_def sample_store_def)

definition sample_leaf :: tls_cert where
  "sample_leaf = \<lparr>tcChain = [[2], [1]], tcPrivateKey = [5], tcLeaf = sample_x509 0\<rparr>"

lemma sample_sign: "signLeaf (sample_env 0) sample_store ''h'' = Inr sample_leaf"
proof -
  have "ParseIP ''h'' = None"
    by (rule ParseIP_name) simp_all
  then show ?thesis
    by (simp add: signLeaf_def sample_env_def sample_x509_lib_def randomSerial_def sample_leaf_def
        sample_store_def leaf_root_def leaf_for_host_def Let_def)
qed

lemma sample_LeafFor:
  assumes "normalizeHost uni host = ''h''"
  shows "LeafFor uni (sample_env 0) host sample_store = (Inr sample_leaf, cachePut ''h'' sample_leaf sample_store)"
proof -
  have "cacheGet ''h'' sample_store = (None, sample_store)"
    by (simp add: cacheGet_def sample_store_def)
  then show ?thesis
    using sample_sign by (simp add: LeafFor_def Let_def assms)
qed

text \<open>
  C9: In every state the store can reach, whatever the interleaving of lookups and insertions by
  concurrent calls, the map-and-linked-list cache behaves as a list of at most \<open>capacity\<close> entries
  kept in order of last use: a lookup returns what the list holds and moves it to the front, an
  insertion puts its entry in front and drops what no longer fits; a non-positive capacity keeps
  nothing.
\<close>

theorem leaf_cache_refines:
  assumes "store_reach cap s"
  shows "CacheLen s \<le> nat cap
    \<and> (fst (cacheGet k s), entries (snd (cacheGet k s))) = lru_get k (entries s)
    \<and> entries (cachePut k c s) = lru_put (nat cap) k c (entries s)"
proof -
  have ok: "store_ok s" "capacity s = cap"
    using store_reach_ok [OF assms] by simp_all
  then show ?thesis
    using leaf_cache.get_refines [OF ok(1)] leaf_cache.put_refines [OF ok(1)]
      leaf_cache.contents_bound [OF ok(1)]
    by (simp add: CacheLen_def entries_def)
qed

theorem leaf_cache_refines_witness:
  "CacheLen sample_store \<le> nat 2
    \<and> (fst (cacheGet ''a'' sample_store), entries (snd (cacheGet ''a'' sample_store))) = lru_get ''a'' (entries sample_store)
    \<and> entries (cachePut ''a'' sample_leaf sample_store) = lru_put (nat 2) ''a'' sample_leaf (entries sample_store)"
  by (rule leaf_cache_refines [OF store_reach.new [OF sample_store_new]])

text \<open>
  A leaf that was signed for a host is served to every later request for the same host name,
  on any port and in any mix of upper and lower case, without signing another one.
\<close>

lemma leaf_shared_across_ports:
  assumes "store_ok s" "0 < capacity s"
    and "is_ascii (host @ port @ port')"
    and "set (host @ port @ port') \<inter> {CHR '':'', CHR ''['', CHR '']''} = {}"
    and "map lower_char host' = map lower_char host" "is_ascii host'"
    and "LeafFor uni env (host @ CHR '':'' # port) s = (Inr cert, s')"
  shows "fst (LeafFor uni env' (host' @ CHR '':'' # port') s') = Inr cert"
proof -
  have sets: "set host \<inter> {CHR '':'', CHR ''['', CHR '']''} = {}"
      "set port \<inter> {CHR '':'', CHR ''['', CHR '']''} = {}"
      "set port' \<inter> {CHR '':'', CHR ''['', CHR '']''} = {}"
    and ascii: "is_ascii host" "is_ascii port" "is_ascii port'"
    using assms(3,4) by (auto simp: is_ascii_def)
  have "set (map lower_char host') \<inter> {CHR '':'', CHR ''['', CHR '']''} = {}"
    unfolding assms(5) using sets(1) by auto
  then have "set host' \<inter> {CHR '':'', CHR ''['', CHR '']''} = {}"
    by auto
  then have "normalizeHost uni (host' @ CHR '':'' # port') = normalizeHost uni (host @ CHR '':'' # port)"
    using sets ascii assms(5,6) by (simp add: normalizeHost_port)
  moreover have "map_of (entries s') (normalizeHost uni (host @ CHR '':'' # port)) = Some cert"
    by (rule LeafFor_cached [OF assms(1,2,7)])
  moreover have "store_ok s'"
    using LeafFor_ok [OF assms(1), of uni env "host @ CHR '':'' # port"] assms(7) by simp
  ultimately show ?thesis
    by (simp add: LeafFor_hit)
qed

text \<open>
  A cached leaf is served however long ago it was signed: the store compares nothing with the
  clock, so once the validity period of a leaf has passed, the expired leaf is still what
  \<open>LeafFor\<close> returns, for as long as its entry stays in the cache.
\<close>

lemma leaf_served_after_expiry:
  assumes "store_ok s" "0 < capacity s" "LeafFor uni env host s = (Inr cert, s')"
    and "xNotAfter (tcLeaf cert) < seNow1 env'"
  shows "\<exists>c. fst (LeafFor uni env' host s') = Inr c \<and> xNotAfter (tcLeaf c) < seNow1 env'"
proof -
  have "store_ok s'"
    using LeafFor_ok [OF assms(1), of uni env host] assms(3) by simp
  then have "fst (LeafFor uni env' host s') = Inr cert"
    by (intro LeafFor_hit LeafFor_cached [OF assms(1-3)])
  then show ?thesis
    using assms(4) by blast
qed

end
