(* ===== verification/Plugin_Conv.thy ===== *)
theory Plugin_Conv
  imports Api
begin

text \<open>
  The plugin SDK, \<open>src/pkg/plugin\<close>: conversion of hints and findings to and from their
  protobuf messages (\<open>conv.go\<close>) and the gRPC adapters on both sides of the connection
  (\<open>scanner.go\<close>, \<open>redactor.go\<close>).  The message types have the field widths of
  \<open>proto/plugin.pb.go\<close>: enums and offsets are \<open>int32\<close>.  A metadata map is the list of its
  entries, so a nil and an empty map, which no reader of a finding tells apart, are both the empty
  list.  The connection is a
  parameter, the function from a request to the response or error the client sees.
\<close>

subsection \<open>Messages\<close>

type_synonym int32 = "32 word"

record pb_hints =
  phContentType :: string
  phUrl :: string
  phMethod :: string
  phDirection :: int32

record pb_finding =
  pfType :: string
  pfSeverity :: int32
  pfStart :: int32
  pfEnd :: int32
  pfConfidence :: rat
  pfScanner :: string
  pfMetadata :: "(string \<times> string) list"

subsection \<open>Conversions\<close>

definition HintsToProto :: "hints \<Rightarrow> pb_hints" where
  "HintsToProto h =
     \<lparr>phContentType = hContentType h, phUrl = hURL h, phMethod = hMethod h,
      phDirection = ucast (hDirection h)\<rparr>"

definition HintsFromProto :: "pb_hints option \<Rightarrow> hints" where
  "HintsFromProto p =
     (case p of
        None \<Rightarrow> \<lparr>hContentType = [], hURL = [], hMethod = [], hDirection = 0\<rparr>
      | Some h \<Rightarrow> \<lparr>hContentType = phContentType h, hURL = phUrl h, hMethod = phMethod h,
                  hDirection = ucast (phDirection h)\<rparr>)"

definition anyToString :: "any_value \<Rightarrow> string" where
  "anyToString v =
     (case v of AnyString s \<Rightarrow> s | AnyBytes b \<Rightarrow> map (\<lambda>x. char_of (unat x)) b | AnyOther \<Rightarrow> [])"

definition FindingToProto :: "finding \<Rightarrow> pb_finding" where
  "FindingToProto f =
     \<lparr>pfType = fType f, pfSeverity = ucast (fSeverity f),
      pfStart = word_of_int (fStart f), pfEnd = word_of_int (fEnd f),
      pfConfidence = fConfidence f, pfScanner = fScanner f,
      pfMetadata = map (\<lambda>(k, v). (k, anyToString v)) (fMetadata f)\<rparr>"

definition FindingFromProto :: "pb_finding option \<Rightarrow> finding" where
  "FindingFromProto p =
     (case p of
        None \<Rightarrow> \<lparr>fType = [], fSeverity = 0, fStart = 0, fEnd = 0, fConfidence = 0, fScanner = [],
                fMetadata = []\<rparr>
      | Some q \<Rightarrow> \<lparr>fType = pfType q, fSeverity = ucast (pfSeverity q), fStart = sint (pfStart q),
                  fEnd = sint (pfEnd q), fConfidence = pfConfidence q, fScanner = pfScanner q,
                  fMetadata = map (\<lambda>(k, v). (k, AnyString v)) (pfMetadata q)\<rparr>)"

definition FindingsToProto :: "finding list \<Rightarrow> pb_finding list" where
  "FindingsToProto fs = map FindingToProto fs"

definition FindingsFromProto :: "pb_finding option list \<Rightarrow> finding list" where
  "FindingsFromProto ps = map FindingFromProto ps"

subsection \<open>The adapters\<close>

record scan_request =
  sqData :: bytes
  sqHints :: "pb_hints option"

record redact_request =
  rqData :: bytes
  rqFindings :: "pb_finding option list"

definition grpcScannerServer_Scan ::
  "scanner \<Rightarrow> scan_request \<Rightarrow> go_error + pb_finding option list" where
  "grpcScannerServer_Scan impl req =
     (case scScan impl (sqData req) (HintsFromProto (sqHints req)) of
        (findings, Some err) \<Rightarrow> Inl err
      | (findings, None) \<Rightarrow> Inr (map Some (FindingsToProto findings)))"

definition grpcScannerClient_Scan ::
  "(scan_request \<Rightarrow> go_error + pb_finding option list) \<Rightarrow> bytes \<Rightarrow> hints
    \<Rightarrow> finding list \<times> go_error option" where
  "grpcScannerClient_Scan rpc data h =
     (case rpc \<lparr>sqData = data, sqHints = Some (HintsToProto h)\<rparr> of
        Inl err \<Rightarrow> ([], Some err)
      | Inr fs \<Rightarrow> (FindingsFromProto fs, None))"

definition grpcRedactorServer_Redact :: "redactor \<Rightarrow> redact_request \<Rightarrow> go_error + bytes" where
  "grpcRedactorServer_Redact impl req =
     (case rdRedact impl (rqData req) (FindingsFromProto (rqFindings req)) of
        Inl err \<Rightarrow> Inl err
      | Inr out \<Rightarrow> Inr out)"

definition grpcRedactorClient_Redact ::
  "(redact_request \<Rightarrow> go_error + bytes) \<Rightarrow> bytes \<Rightarrow> finding list \<Rightarrow> go_error + bytes" where
  "grpcRedactorClient_Redact rpc data fs =
     (case rpc \<lparr>rqData = data, rqFindings = map Some (FindingsToProto fs)\<rparr> of
        Inl err \<Rightarrow> Inl err
      | Inr out \<Rightarrow> Inr out)"

text \<open>
  A client caches the name its plugin reports; \<open>Info\<close> is the call that fetches it.
\<close>

record plugin_client =
  pcName :: string

definition client_Info :: "(go_error + string option) \<Rightarrow> plugin_client \<Rightarrow> (go_error + string option) \<times> plugin_client" where
  "client_Info reply c =
     (case reply of
        Inl err \<Rightarrow> (Inl err, c)
      | Inr info \<Rightarrow> (Inr info, case info of None \<Rightarrow> c | Some name \<Rightarrow> c\<lparr>pcName := name\<rparr>))"

subsection \<open>Round trips\<close>

definition fits_int32 :: "int \<Rightarrow> bool" where
  "fits_int32 i \<longleftrightarrow> - (2 ^ 31) \<le> i \<and> i < 2 ^ 31"

lemma sint_int32: "sint (word_of_int i :: int32) = i \<longleftrightarrow> fits_int32 i"
  using signed_take_bit_int_eq_self_iff [of 31 i] by (simp add: signed_of_int fits_int32_def)


fun is_string :: "any_value \<Rightarrow> bool" where
  "is_string (AnyString s) = True"
| "is_string _ = False"

definition crosses_wire :: "finding \<Rightarrow> bool" where
  "crosses_wire f \<longleftrightarrow> fits_int32 (fStart f) \<and> fits_int32 (fEnd f) \<and>
     list_all (\<lambda>(k, v). is_string v) (fMetadata f)"

lemma ucast_back: "(ucast (ucast (x :: 8 word) :: int32) :: 8 word) = x"
  by (rule bit_word_eqI) (simp add: bit_ucast_iff)

lemma string_round: "AnyString (anyToString v) = v \<longleftrightarrow> is_string v"
  by (cases v) (simp_all add: anyToString_def)

lemma metadata_round:
  "map (\<lambda>(k, v). (k, AnyString v)) (map (\<lambda>(k, v). (k, anyToString v)) m) = m \<longleftrightarrow>
    list_all (\<lambda>(k, v). is_string v) m"
  by (induction m) (auto simp: string_round)

lemma Hints_round: "HintsFromProto (Some (HintsToProto h)) = h"
  by (simp add: HintsFromProto_def HintsToProto_def ucast_back)

lemma Finding_round_iff: "FindingFromProto (Some (FindingToProto f)) = f \<longleftrightarrow> crosses_wire f"
proof -
  have "FindingFromProto (Some (FindingToProto f)) = f \<longleftrightarrow>
      sint (word_of_int (fStart f) :: int32) = fStart f \<and> sint (word_of_int (fEnd f) :: int32) = fEnd f \<and>
      map (\<lambda>(k, v). (k, AnyString v)) (map (\<lambda>(k, v). (k, anyToString v)) (fMetadata f)) = fMetadata f"
    by (cases f) (simp add: FindingFromProto_def FindingToProto_def ucast_back del: map_map)
  then show ?thesis
    unfolding sint_int32 metadata_round crosses_wire_def by blast
qed

lemma Findings_round:
  assumes "\<And>f. f \<in> set fs \<Longrightarrow> crosses_wire f"
  shows "FindingsFromProto (map Some (FindingsToProto fs)) = fs"
  using assms by (induction fs) (simp_all add: FindingsFromProto_def FindingsToProto_def Finding_round_iff)

text \<open>Behind a lossless connection the client is the plugin's scanner, when the findings fit.\<close>

lemma remote_Scan:
  assumes "\<And>f. f \<in> set (fst (scScan impl data h)) \<Longrightarrow> crosses_wire f"
  shows "grpcScannerClient_Scan (grpcScannerServer_Scan impl) data h =
    (case scScan impl data h of (fs, None) \<Rightarrow> (fs, None) | (fs, Some e) \<Rightarrow> ([], Some e))"
  using Findings_round [OF assms]
  by (simp add: grpcScannerClient_Scan_def grpcScannerServer_Scan_def Hints_round
      split: prod.split option.split)

lemma remote_Redact:
  assumes "\<And>f. f \<in> set fs \<Longrightarrow> crosses_wire f"
  shows "grpcRedactorClient_Redact (grpcRedactorServer_Redact impl) data fs = rdRedact impl data fs"
  using Findings_round [OF assms]
  by (simp add: grpcRedactorClient_Redact_def grpcRedactorServer_Redact_def split: sum.splits)

subsection \<open>Properties\<close>

text \<open>
  C32: \<open>FindingFromProto\<close> undoes \<open>FindingToProto\<close> exactly for findings whose offsets are
  32-bit integers and whose metadata values are strings; every other finding is changed.
\<close>

theorem finding_roundtrip_iff:
  "FindingFromProto (Some (FindingToProto f)) = f \<longleftrightarrow>
    fits_int32 (fStart f) \<and> fits_int32 (fEnd f) \<and>
    list_all (\<lambda>(k, v). \<exists>s. v = AnyString s) (fMetadata f)"
proof -
  have "is_string v \<longleftrightarrow> (\<exists>s. v = AnyString s)" for v
    by (cases v) auto
  then show ?thesis
    by (simp add: Finding_round_iff crosses_wire_def)
qed

text \<open>
  Over a lossless connection a plugin scanner whose findings fit the wire format behaves as if
  it were built in, except that findings returned together with an error are lost.
\<close>

lemma remote_scanner_transparent:
  assumes "\<And>f. f \<in> set (fst (scScan impl data h)) \<Longrightarrow> crosses_wire f"
  shows "grpcScannerClient_Scan (grpcScannerServer_Scan impl) data h =
    (if snd (scScan impl data h) = None then scScan impl data h
     else ([], snd (scScan impl data h)))"
  using remote_Scan [OF assms] by (auto split: prod.splits option.splits)

text \<open>
  An offset beyond 32 bits does not survive: a finding at \<open>[2^32 + 1, 2^32 + 3)\<close> comes back
  as \<open>[1, 3)\<close>, a different range of the body.
\<close>

lemma finding_offsets_wrap:
  "FindingFromProto (Some (FindingToProto (f\<lparr>fStart := 2 ^ 32 + 1, fEnd := 2 ^ 32 + 3, fMetadata := []\<rparr>))) =
    f\<lparr>fStart := 1, fEnd := 3, fMetadata := []\<rparr>"
  by (cases f) (simp add: FindingFromProto_def FindingToProto_def ucast_back)

end
