(* ===== verification/Plugin_Host.thy ===== *)
theory Plugin_Host
  imports Plugin_Conv
begin

text \<open>
  The plugin host, \<open>src/internal/plugin/host.go\<close>: dispensing a plugin subprocess, loading it
  as a scanner or a redactor, and shutting the subprocesses down.  The go-plugin library is a
  parameter: for each start it says whether the connection succeeds and what \<open>Dispense\<close>
  returns.  Clients are numbered in the order the host creates them.
\<close>

definition KindScanner :: string where "KindScanner = ''scanner''"
definition KindRedactor :: string where "KindRedactor = ''redactor''"

record plugin_config =
  pcfgName :: string
  pcfgCommand :: "string list"
  pcfgEnv :: "string list"
  pcfgKind :: string
  pcfgHandshakeTimeout :: int

text \<open>
  What a plugin is after \<open>Dispense\<close>: a gRPC client with its remote operation and the reply its
  \<open>Info\<close> call would get, or a value of another type.
\<close>

datatype raw_plugin =
    RawScanner plugin_client "go_error + string option" "scan_request \<Rightarrow> go_error + pb_finding option list"
  | RawRedactor plugin_client "go_error + string option" "redact_request \<Rightarrow> go_error + bytes"
  | RawOther string

record start_config =
  stcCommand :: "string list"
  stcEnv :: "string list option"
  stcTimeout :: int

record plugin_lib =
  plConnect :: "start_config \<Rightarrow> go_error option"
  plDispense :: "start_config \<Rightarrow> string \<Rightarrow> go_error + raw_plugin"

record host =
  hoProcs :: "nat list"
  hoKilled :: "nat list"
  hoNext :: nat

definition NewHost :: host where
  "NewHost = \<lparr>hoProcs = [], hoKilled = [], hoNext = 0\<rparr>"

text \<open>
  The verb \<open>%q\<close> of \<open>fmt\<close>: the string in double quotes with its quotes, backslashes and control
  characters escaped; the runes beyond ASCII are kept.
\<close>

definition hex_char :: "nat \<Rightarrow> char" where
  "hex_char n = ''0123456789abcdef'' ! n"

definition quote_char :: "char \<Rightarrow> string" where
  "quote_char c =
     (if c = CHR 34 \<or> c = CHR 92 then [CHR 92, c]
      else case map_of [(CHR 7, CHR ''a''), (CHR 8, CHR ''b''), (CHR 12, CHR ''f''), (CHR 10, CHR ''n''),
                        (CHR 13, CHR ''r''), (CHR 9, CHR ''t''), (CHR 11, CHR ''v'')] c of
             Some e \<Rightarrow> [CHR 92, e]
           | None \<Rightarrow>
               if of_char c < (32 :: nat) \<or> of_char c = (127 :: nat)
               then [CHR 92, CHR ''x'', hex_char (of_char c div 16), hex_char (of_char c mod 16)]
               else [c])"

definition quoted :: "string \<Rightarrow> string" where
  "quoted s = [CHR 34] @ concat (map quote_char s) @ [CHR 34]"

definition dispense ::
  "plugin_lib \<Rightarrow> plugin_config \<Rightarrow> string \<Rightarrow> host \<Rightarrow> (go_error + raw_plugin) \<times> host" where
  "dispense lib cfg kind h =
     (if pcfgCommand cfg = [] then (Inl (GoErr ''plugin: command is required'' []), h)
      else
        let timeout = (if pcfgHandshakeTimeout cfg \<le> 0 then 10 * 10 ^ 9 else pcfgHandshakeTimeout cfg);
            cmd = \<lparr>stcCommand = pcfgCommand cfg,
                   stcEnv = (if pcfgEnv cfg = [] then None else Some (pcfgEnv cfg)),
                   stcTimeout = timeout\<rparr>;
            client = hoNext h;
            h1 = h\<lparr>hoNext := Suc client\<rparr> in
        case plConnect lib cmd of
          Some err \<Rightarrow>
            (Inl (WrapErr (''plugin '' @ quoted (pcfgName cfg) @ '': connect: %w'') err),
             h1\<lparr>hoKilled := client # hoKilled h1\<rparr>)
        | None \<Rightarrow>
            (case plDispense lib cmd kind of
               Inl err \<Rightarrow>
                 (Inl (WrapErr (''plugin '' @ quoted (pcfgName cfg) @ '': dispense '' @ kind @ '': %w'') err),
                  h1\<lparr>hoKilled := client # hoKilled h1\<rparr>)
             | Inr raw \<Rightarrow> (Inr raw, h1\<lparr>hoProcs := hoProcs h1 @ [client]\<rparr>)))"

text \<open>The result type of the \<open>Info\<close> method, which decides the type assertions on it.\<close>

datatype info_result = ResultPluginInfo | ResultAny

definition has_Info :: "raw_plugin \<Rightarrow> info_result \<Rightarrow> bool" where
  "has_Info raw res =
     (case raw of RawOther t \<Rightarrow> False | _ \<Rightarrow> res = ResultPluginInfo)"

text \<open>The wrappers that override the name of a plugin that reported none.\<close>

definition namedScanner :: "scanner \<Rightarrow> string \<Rightarrow> scanner" where
  "namedScanner s name = s\<lparr>scName := name\<rparr>"

definition namedRedactor :: "redactor \<Rightarrow> string \<Rightarrow> redactor" where
  "namedRedactor r name = r\<lparr>rdName := name\<rparr>"

declare namedScanner_def [simp] namedRedactor_def [simp]

definition LoadScanner ::
  "plugin_lib \<Rightarrow> plugin_config \<Rightarrow> host \<Rightarrow> (go_error + scanner) \<times> host" where
  "LoadScanner lib cfg h =
     (case dispense lib cfg KindScanner h of
        (Inl err, h') \<Rightarrow> (Inl err, h')
      | (Inr raw, h') \<Rightarrow>
          (case raw of
             RawScanner c reply rpc \<Rightarrow>
               let c' = (if has_Info raw ResultPluginInfo then snd (client_Info reply c) else c);
                   sc = \<lparr>scName = pcName c', scAccepts = None, scScan = grpcScannerClient_Scan rpc\<rparr> in
               (Inr (if scName sc = [] then namedScanner sc (pcfgName cfg) else sc), h')
           | _ \<Rightarrow> (Inl (GoErr ''plugin %q did not return an api.Scanner (got %T)'' [pcfgName cfg]), h')))"

definition LoadRedactor ::
  "plugin_lib \<Rightarrow> plugin_config \<Rightarrow> host \<Rightarrow> (go_error + redactor) \<times> host" where
  "LoadRedactor lib cfg h =
     (case dispense lib cfg KindRedactor h of
        (Inl err, h') \<Rightarrow> (Inl err, h')
      | (Inr raw, h') \<Rightarrow>
          (case raw of
             RawRedactor c reply rpc \<Rightarrow>
               let c' = (if has_Info raw ResultAny then snd (client_Info reply c) else c);
                   red = \<lparr>rdName = pcName c', rdRedact = grpcRedactorClient_Redact rpc\<rparr> in
               (Inr (if rdName red = [] then namedRedactor red (pcfgName cfg) else red), h')
           | _ \<Rightarrow> (Inl (GoErr ''plugin %q did not return an api.Redactor (got %T)'' [pcfgName cfg]), h')))"

definition Shutdown :: "host \<Rightarrow> host" where
  "Shutdown h = h\<lparr>hoKilled := rev (hoProcs h) @ hoKilled h, hoProcs := []\<rparr>"

subsection \<open>No subprocess is lost\<close>

text \<open>Every client the host has created is either still owned or has been killed, and not both.\<close>

definition host_ok :: "host \<Rightarrow> bool" where
  "host_ok h \<longleftrightarrow> distinct (hoProcs h @ hoKilled h) \<and> set (hoProcs h @ hoKilled h) = {..<hoNext h}"

lemma host_ok_kill:
  "host_ok h \<Longrightarrow> host_ok (h\<lparr>hoNext := Suc (hoNext h), hoKilled := hoNext h # hoKilled h\<rparr>)"
  unfolding host_ok_def by (auto simp: lessThan_Suc)

lemma host_ok_own:
  "host_ok h \<Longrightarrow> host_ok (h\<lparr>hoNext := Suc (hoNext h), hoProcs := hoProcs h @ [hoNext h]\<rparr>)"
  unfolding host_ok_def by (auto simp: lessThan_Suc)

lemma dispense_ok: "host_ok h \<Longrightarrow> host_ok (snd (dispense lib cfg kind h))"
  by (auto simp: dispense_def Let_def host_ok_kill host_ok_own split: option.splits sum.splits)

lemma LoadScanner_host: "snd (LoadScanner lib cfg h) = snd (dispense lib cfg KindScanner h)"
  by (auto simp: LoadScanner_def Let_def split: prod.splits sum.splits raw_plugin.splits)

lemma LoadRedactor_host: "snd (LoadRedactor lib cfg h) = snd (dispense lib cfg KindRedactor h)"
  by (auto simp: LoadRedactor_def Let_def split: prod.splits sum.splits raw_plugin.splits)

inductive host_reach :: "plugin_lib \<Rightarrow> host \<Rightarrow> bool" for lib :: plugin_lib where
  new: "host_reach lib NewHost"
| load_scanner: "host_reach lib h \<Longrightarrow> host_reach lib (snd (LoadScanner lib cfg h))"
| load_redactor: "host_reach lib h \<Longrightarrow> host_reach lib (snd (LoadRedactor lib cfg h))"
| shutdown: "host_reach lib h \<Longrightarrow> host_reach lib (Shutdown h)"

lemma Shutdown_ok: "host_ok h \<Longrightarrow> host_ok (Shutdown h)"
  by (auto simp: host_ok_def Shutdown_def)

lemma host_reach_ok: "host_reach lib h \<Longrightarrow> host_ok h"
  by (induction rule: host_reach.induct)
    (simp_all add: LoadScanner_host LoadRedactor_host dispense_ok Shutdown_ok,
      simp add: host_ok_def NewHost_def)

subsection \<open>Properties\<close>

text \<open>
  After a shutdown no plugin subprocess is left running, whatever was loaded before and
  whichever loads failed: every client ever created has been killed, once.
\<close>

lemma shutdown_kills_all:
  assumes "host_reach lib h"
  shows "hoProcs (Shutdown h) = [] \<and> set (hoKilled (Shutdown h)) = {..<hoNext h} \<and>
    distinct (hoKilled (Shutdown h))"
  using host_reach_ok [OF assms] by (auto simp: host_ok_def Shutdown_def)

definition sample_lib :: plugin_lib where
  "sample_lib = \<lparr>plConnect = (\<lambda>c. if stcCommand c = [''bad''] then Some (GoErr ''refused'' []) else None),
     plDispense = (\<lambda>c kind. Inr (RawScanner \<lparr>pcName = []\<rparr> (Inr (Some ''ner''))
        (\<lambda>req. Inr [])))\<rparr>"

definition sample_config :: "string list \<Rightarrow> plugin_config" where
  "sample_config cmd = \<lparr>pcfgName = ''cfg'', pcfgCommand = cmd, pcfgEnv = [], pcfgKind = KindScanner,
     pcfgHandshakeTimeout = 0\<rparr>"

text \<open>
  A redactor plugin never takes the name it reports.  The type assertion in
  \<open>LoadRedactor\<close> asks for an \<open>Info\<close> method that returns \<open>any\<close>, which the
  gRPC client does not have, so the reported name is never fetched and the configured name is
  used, whatever the plugin replies.
\<close>

lemma redactor_reported_name_ignored:
  assumes "plConnect lib \<lparr>stcCommand = pcfgCommand cfg,
      stcEnv = (if pcfgEnv cfg = [] then None else Some (pcfgEnv cfg)),
      stcTimeout = (if pcfgHandshakeTimeout cfg \<le> 0 then 10 * 10 ^ 9 else pcfgHandshakeTimeout cfg)\<rparr> = None"
    and "\<And>c kind. plDispense lib c kind = Inr (RawRedactor \<lparr>pcName = []\<rparr> reply rpc)"
    and "pcfgCommand cfg \<noteq> []"
  shows "\<exists>red. fst (LoadRedactor lib cfg h) = Inr red \<and> rdName red = pcfgName cfg"
  using assms by (simp add: LoadRedactor_def dispense_def has_Info_def Let_def)

text \<open>
  A scanner plugin does take the name it reports, and the configured name when the report is
  empty or the call fails.
\<close>

lemma scanner_reported_name:
  assumes "fst (dispense lib cfg KindScanner h) = Inr (RawScanner \<lparr>pcName = []\<rparr> reply rpc)"
  shows "\<exists>sc. fst (LoadScanner lib cfg h) = Inr sc \<and> scAccepts sc = None \<and>
    scName sc = (case reply of
        Inr (Some name) \<Rightarrow> if name = [] then pcfgName cfg else name
      | _ \<Rightarrow> pcfgName cfg)"
  using assms
  by (auto simp: LoadScanner_def has_Info_def client_Info_def Let_def
      split: prod.splits sum.splits option.splits)

end
