(* ===== verification/Go_Os.thy ===== *)
theory Go_Os
  imports Go_Net
begin

unbundle bit_operations_syntax

text \<open>
  What the CA commands use of Go's \<open>path/filepath\<close> and \<open>os\<close>, for Unix: lexical path cleaning, and a
  file system of directories and regular files with permission bits.  Paths that differ only
  lexically name the same node; there are no symbolic links.  What else the operating system may
  refuse (permissions, a full disk) is given by the environment, call by call.
\<close>

subsection \<open>Paths\<close>

fun join_path :: "string list \<Rightarrow> string" where
  "join_path [] = []"
| "join_path [e] = e"
| "join_path (e # es) = e @ CHR ''/'' # join_path es"

text \<open>One element of a path, against the elements kept so far (innermost first).\<close>

definition clean_step :: "bool \<Rightarrow> string list \<Rightarrow> string \<Rightarrow> string list" where
  "clean_step rooted out e =
     (if e = [] \<or> e = ''.'' then out
      else if e = ''..'' then
        (case out of
           [] \<Rightarrow> if rooted then [] else [''..'']
         | t # out' \<Rightarrow> if t = ''..'' then ''..'' # out else out')
      else e # out)"

definition clean_elements :: "bool \<Rightarrow> string list \<Rightarrow> string list" where
  "clean_elements rooted es = rev (foldl (clean_step rooted) [] es)"

definition IsAbs :: "string \<Rightarrow> bool" where
  "IsAbs p \<longleftrightarrow> p \<noteq> [] \<and> hd p = CHR ''/''"

definition unclean :: "bool \<Rightarrow> string list \<Rightarrow> string" where
  "unclean rooted es =
     (if rooted then CHR ''/'' # join_path es else if es = [] then ''.'' else join_path es)"

definition Clean :: "string \<Rightarrow> string" where
  "Clean p = unclean (IsAbs p) (clean_elements (IsAbs p) (Split p CHR ''/''))"

definition filepath_Join :: "string list \<Rightarrow> string" where
  "filepath_Join elems =
     (case dropWhile (\<lambda>e. e = []) elems of [] \<Rightarrow> [] | es \<Rightarrow> Clean (join_path es))"

definition filepath_Dir :: "string \<Rightarrow> string" where
  "filepath_Dir p = Clean (rev (dropWhile (\<lambda>c. c \<noteq> CHR ''/'') (rev p)))"

text \<open>\<open>os.UserConfigDir\<close> on Unix; \<open>getenv\<close> is the environment of the process.\<close>

definition UserConfigDir :: "(string \<Rightarrow> string) \<Rightarrow> go_error + string" where
  "UserConfigDir getenv =
     (let dir = getenv ''XDG_CONFIG_HOME'' in
      if dir = [] then
        (if getenv ''HOME'' = []
         then Inl (GoErr ''neither $XDG_CONFIG_HOME nor $HOME are defined'' [])
         else Inr (getenv ''HOME'' @ ''/.config''))
      else if \<not> IsAbs dir then Inl (GoErr ''path in $XDG_CONFIG_HOME is relative'' [])
      else Inr dir)"

subsection \<open>Files\<close>

type_synonym file_mode = "32 word"

datatype node = DirNode file_mode | FileNode file_mode bytes

type_synonym file_system = "string \<rightharpoonup> node"

datatype os_call = OpenRead string | OpenWrite string | WriteData string | CloseFile string
  | MakeDir string | RemoveFile string | StatFile string

text \<open>\<open>osShort\<close> is how many bytes reach a file before a write to it fails.\<close>

record os_env =
  osUmask :: file_mode
  osFault :: "os_call \<Rightarrow> go_error option"
  osShort :: "string \<Rightarrow> nat"

definition ErrNotExist :: go_error where
  "ErrNotExist = Sentinel ''file does not exist''"

definition path_error :: "string \<Rightarrow> string \<Rightarrow> go_error \<Rightarrow> go_error" where
  "path_error opn p err = WrapErr (opn @ '' '' @ p @ '': %w'') err"

definition ReadFile :: "os_env \<Rightarrow> string \<Rightarrow> file_system \<Rightarrow> go_error + bytes" where
  "ReadFile env p fs =
     (case osFault env (OpenRead p) of
        Some err \<Rightarrow> Inl (path_error ''open'' p err)
      | None \<Rightarrow>
          (case fs (Clean p) of
             None \<Rightarrow> Inl (path_error ''open'' p ErrNotExist)
           | Some (DirNode m) \<Rightarrow> Inl (path_error ''read'' p (GoErr ''is a directory'' []))
           | Some (FileNode m data) \<Rightarrow> Inr data))"

text \<open>
  \<open>WriteFile\<close> truncates an existing file and keeps its mode; the mode it is given is used, less the
  umask, only when it creates the file.
\<close>

definition open_trunc :: "os_env \<Rightarrow> string \<Rightarrow> file_mode \<Rightarrow> file_system \<Rightarrow> go_error + file_mode" where
  "open_trunc env p perm fs =
     (case osFault env (OpenWrite p) of
        Some err \<Rightarrow> Inl (path_error ''open'' p err)
      | None \<Rightarrow>
          (case fs (Clean p) of
             Some (DirNode m) \<Rightarrow> Inl (path_error ''open'' p (GoErr ''is a directory'' []))
           | Some (FileNode m old) \<Rightarrow> Inr m
           | None \<Rightarrow>
               (case fs (filepath_Dir (Clean p)) of
                  Some (DirNode m) \<Rightarrow> Inr (perm AND NOT (osUmask env))
                | _ \<Rightarrow> Inl (path_error ''open'' p ErrNotExist))))"

definition WriteFile ::
  "os_env \<Rightarrow> string \<Rightarrow> bytes \<Rightarrow> file_mode \<Rightarrow> file_system \<Rightarrow> go_error option \<times> file_system" where
  "WriteFile env p data perm fs =
     (case open_trunc env p perm fs of
        Inl err \<Rightarrow> (Some err, fs)
      | Inr m \<Rightarrow>
          (case osFault env (WriteData p) of
             Some err \<Rightarrow> (Some (path_error ''write'' p err),
                          fs(Clean p \<mapsto> FileNode m (take (osShort env p) data)))
           | None \<Rightarrow> (map_option (path_error ''close'' p) (osFault env (CloseFile p)),
                      fs(Clean p \<mapsto> FileNode m data))))"

definition os_Remove :: "os_env \<Rightarrow> string \<Rightarrow> file_system \<Rightarrow> go_error option \<times> file_system" where
  "os_Remove env p fs =
     (case osFault env (RemoveFile p) of
        Some err \<Rightarrow> (Some (path_error ''remove'' p err), fs)
      | None \<Rightarrow>
          (case fs (Clean p) of
             None \<Rightarrow> (Some (path_error ''remove'' p ErrNotExist), fs)
           | Some (DirNode m) \<Rightarrow> (Some (path_error ''remove'' p (GoErr ''directory not empty'' [])), fs)
           | Some (FileNode m data) \<Rightarrow> (None, fs(Clean p := None))))"

definition os_Stat :: "os_env \<Rightarrow> string \<Rightarrow> file_system \<Rightarrow> go_error + node" where
  "os_Stat env p fs =
     (case osFault env (StatFile p) of
        Some err \<Rightarrow> Inl (path_error ''stat'' p err)
      | None \<Rightarrow> (case fs (Clean p) of None \<Rightarrow> Inl (path_error ''stat'' p ErrNotExist) | Some n \<Rightarrow> Inr n))"

text \<open>The part of a path before its last element, with the separator.\<close>

definition parent_part :: "string \<Rightarrow> string" where
  "parent_part p =
     rev (dropWhile (\<lambda>c. c \<noteq> CHR ''/'') (dropWhile (\<lambda>c. c = CHR ''/'') (rev p)))"

lemma parent_part_shorter: "p \<noteq> [] \<Longrightarrow> length (parent_part p) < length p"
proof -
  assume "p \<noteq> []"
  then obtain c q where q: "rev p = c # q" by (cases "rev p") auto
  then have "length p = Suc (length q)"
    by (metis length_Cons length_rev)
  then show ?thesis
    using length_dropWhile_le [of "\<lambda>c. c \<noteq> CHR ''/''" "dropWhile (\<lambda>c. c = CHR ''/'') q"]
      length_dropWhile_le [of "\<lambda>c. c = CHR ''/''" q] length_dropWhile_le [of "\<lambda>c. c \<noteq> CHR ''/''" q]
    by (simp add: parent_part_def q)
qed

definition is_dir :: "file_system \<Rightarrow> string \<Rightarrow> bool" where
  "is_dir fs p = (case fs (Clean p) of Some (DirNode m) \<Rightarrow> True | _ \<Rightarrow> False)"

text \<open>\<open>Mkdir\<close> and the second look that \<open>MkdirAll\<close> takes when it fails.\<close>

definition make_dir ::
  "os_env \<Rightarrow> string \<Rightarrow> file_mode \<Rightarrow> file_system \<Rightarrow> go_error option \<times> file_system" where
  "make_dir env p perm fs =
     (case osFault env (MakeDir p) of
        Some err \<Rightarrow> (if is_dir fs p then None else Some (path_error ''mkdir'' p err), fs)
      | None \<Rightarrow>
          (case fs (Clean p) of
             Some n \<Rightarrow> (if is_dir fs p then None
                        else Some (path_error ''mkdir'' p (GoErr ''file exists'' [])), fs)
           | None \<Rightarrow> (None, fs(Clean p \<mapsto> DirNode (perm AND NOT (osUmask env))))))"

function MkdirAll ::
  "os_env \<Rightarrow> string \<Rightarrow> file_mode \<Rightarrow> file_system \<Rightarrow> go_error option \<times> file_system" where
  "MkdirAll env p perm fs =
     (case os_Stat env p fs of
        Inr (DirNode m) \<Rightarrow> (None, fs)
      | Inr (FileNode m d) \<Rightarrow> (Some (path_error ''mkdir'' p (GoErr ''not a directory'' [])), fs)
      | Inl err \<Rightarrow>
          (if p = [] \<or> parent_part p = [] then make_dir env p perm fs
           else case MkdirAll env (parent_part p) perm fs of
                  (Some e, fs') \<Rightarrow> (Some e, fs')
                | (None, fs') \<Rightarrow> make_dir env p perm fs'))"
  by pat_completeness auto
termination
  by (relation "measure (\<lambda>(env, p, perm, fs). length p)") (auto intro: parent_part_shorter)

declare MkdirAll.simps [simp del]

subsection \<open>What the calls do\<close>

lemma WriteFile_done:
  assumes "WriteFile env p data perm fs = (None, fs')"
  shows "\<exists>m. fs' = fs(Clean p \<mapsto> FileNode m data) \<and>
    (case fs (Clean p) of
       Some (FileNode m0 old) \<Rightarrow> m = m0 | Some (DirNode m0) \<Rightarrow> False | None \<Rightarrow> m = perm AND NOT (osUmask env))"
  using assms
  by (auto simp: WriteFile_def open_trunc_def split: sum.splits option.splits node.splits)

lemma WriteFile_elsewhere: "q \<noteq> Clean p \<Longrightarrow> snd (WriteFile env p data perm fs) q = fs q"
  by (auto simp: WriteFile_def split: sum.splits option.splits)

lemma make_dir_keeps: "fs q = Some n \<Longrightarrow> snd (make_dir env p perm fs) q = Some n"
  by (auto simp: make_dir_def split: option.splits)

lemma make_dir_done: "make_dir env p perm fs = (None, fs') \<Longrightarrow> is_dir fs' p"
  by (auto simp: make_dir_def is_dir_def split: option.splits if_splits node.splits)

lemma MkdirAll_keeps: "fs q = Some n \<Longrightarrow> snd (MkdirAll env p perm fs) q = Some n"
proof (induction env p perm fs rule: MkdirAll.induct)
  case (1 env p perm fs)
  show ?case
    using 1 make_dir_keeps [of fs q n env p perm]
    by (subst MkdirAll.simps)
      (auto split: sum.splits node.splits prod.splits option.splits intro: make_dir_keeps)
qed

text \<open>What appears is a directory.\<close>

lemma make_dir_new:
  "fs q = None \<Longrightarrow> snd (make_dir env p perm fs) q = None \<or> (\<exists>m. snd (make_dir env p perm fs) q = Some (DirNode m))"
  by (auto simp: make_dir_def split: option.splits)

lemma MkdirAll_new:
  "fs q = None \<Longrightarrow> snd (MkdirAll env p perm fs) q = None \<or> (\<exists>m. snd (MkdirAll env p perm fs) q = Some (DirNode m))"
proof (induction env p perm fs rule: MkdirAll.induct)
  case (1 env p perm fs)
  show ?case
  proof (cases "\<exists>e. os_Stat env p fs = Inl e \<and> p \<noteq> [] \<and> parent_part p \<noteq> []")
    case True
    then obtain e where e: "os_Stat env p fs = Inl e" "p \<noteq> []" "parent_part p \<noteq> []"
      by blast
    obtain r fs1 where r: "MkdirAll env (parent_part p) perm fs = (r, fs1)"
      by fastforce
    then have "fs1 q = None \<or> (\<exists>m. fs1 q = Some (DirNode m))"
      using 1 e by auto
    then show ?thesis
      using e r make_dir_new [of fs1 q env p perm] make_dir_keeps [of fs1 q _ env p perm]
      by (cases r) (auto simp: MkdirAll.simps [of env p])
  next
    case False
    then show ?thesis
      using 1(2) make_dir_new [of fs q env p perm]
      by (subst (1 2) MkdirAll.simps) (auto split: sum.splits node.splits)
  qed
qed

lemma MkdirAll_done: "MkdirAll env p perm fs = (None, fs') \<Longrightarrow> is_dir fs' p"
  by (subst (asm) MkdirAll.simps)
    (auto split: sum.splits node.splits prod.splits option.splits if_splits dest: make_dir_done
      simp: os_Stat_def is_dir_def)

text \<open>In a quiet environment, directories can be made wherever no file stands in the way.\<close>

definition quiet :: "os_env \<Rightarrow> bool" where
  "quiet env \<longleftrightarrow> osFault env = (\<lambda>c. None)"

function ancestors :: "string \<Rightarrow> string list" where
  "ancestors p = p # (if p = [] \<or> parent_part p = [] then [] else ancestors (parent_part p))"
  by pat_completeness auto
termination
  by (relation "measure length") (auto intro: parent_part_shorter)

declare ancestors.simps [simp del]

definition no_file :: "file_system \<Rightarrow> string \<Rightarrow> bool" where
  "no_file fs p \<longleftrightarrow> (\<forall>m d. fs (Clean p) \<noteq> Some (FileNode m d))"

lemma make_dir_no_file: "no_file fs q \<Longrightarrow> no_file (snd (make_dir env p perm fs)) q"
  by (auto simp: make_dir_def no_file_def split: option.splits)

lemma make_dir_quiet: "quiet env \<Longrightarrow> no_file fs p \<Longrightarrow> fst (make_dir env p perm fs) = None"
  by (auto simp: make_dir_def no_file_def quiet_def is_dir_def split: option.splits node.splits)

lemma MkdirAll_quiet:
  assumes "quiet env" "\<And>q. q \<in> set (ancestors p) \<Longrightarrow> no_file fs q"
  shows "fst (MkdirAll env p perm fs) = None \<and> (\<forall>q. no_file fs q \<longrightarrow> no_file (snd (MkdirAll env p perm fs)) q)"
  using assms
proof (induction env p perm fs rule: MkdirAll.induct)
  case (1 env p perm fs)
  have p: "no_file fs p"
    using 1(3) by (simp add: ancestors.simps)
  show ?case
  proof (cases "is_dir fs p \<or> p = [] \<or> parent_part p = []")
    case True
    then show ?thesis
      using p 1(2) make_dir_no_file make_dir_quiet
      by (subst (1 2) MkdirAll.simps)
        (auto simp: os_Stat_def quiet_def is_dir_def no_file_def split: option.splits node.splits)
  next
    case False
    then have st: "\<exists>e. os_Stat env p fs = Inl e" "ancestors p = p # ancestors (parent_part p)"
      using p 1(2) by (auto simp: os_Stat_def quiet_def is_dir_def no_file_def ancestors.simps [of p]
          split: option.splits node.splits)
    obtain fs1 where fs1: "MkdirAll env (parent_part p) perm fs = (None, fs1)" "\<forall>q. no_file fs q \<longrightarrow> no_file fs1 q"
      using 1 False st by (cases "MkdirAll env (parent_part p) perm fs") auto
    then show ?thesis
      using p 1(2) st False make_dir_no_file make_dir_quiet by (auto simp: MkdirAll.simps [of env p])
  qed
qed

subsection \<open>Clean paths\<close>

lemma Split_nonempty [simp]: "Split s sep \<noteq> []"
  by (induction s) (auto split: list.splits)

lemma Split_no_sep: "e \<in> set (Split s sep) \<Longrightarrow> sep \<notin> set e"
  by (induction s arbitrary: e) (auto split: if_splits list.splits)

lemma Split_append: "Split (s @ sep # t) sep = Split s sep @ Split t sep"
  by (induction s) (auto split: list.splits)

lemma Split_plain: "sep \<notin> set s \<Longrightarrow> Split s sep = [s]"
  by (induction s) auto

lemma Split_join:
  "es \<noteq> [] \<Longrightarrow> list_all (\<lambda>e. CHR ''/'' \<notin> set e) es \<Longrightarrow> Split (join_path es) CHR ''/'' = es"
  by (induction es rule: join_path.induct) (auto simp: Split_plain Split_append)

text \<open>A proper name: what one element of a clean path looks like, parent references apart.\<close>

definition element :: "string \<Rightarrow> bool" where
  "element e \<longleftrightarrow> e \<noteq> [] \<and> e \<noteq> ''.'' \<and> CHR ''/'' \<notin> set e"

definition clean_stack :: "bool \<Rightarrow> string list \<Rightarrow> bool" where
  "clean_stack rooted out \<longleftrightarrow> list_all element out \<and> (rooted \<longrightarrow> ''..'' \<notin> set out) \<and>
     sorted_wrt (\<lambda>x y. x = ''..'' \<longrightarrow> y = ''..'') out"

lemma clean_step_stack:
  assumes "clean_stack rooted out" "CHR ''/'' \<notin> set e"
  shows "clean_stack rooted (clean_step rooted out e)"
proof (cases "e = ''..''")
  case False
  then show ?thesis
    using assms by (auto simp: clean_step_def clean_stack_def element_def)
next
  case True
  then show ?thesis
    using assms by (cases out) (auto simp: clean_step_def clean_stack_def element_def)
qed

lemma foldl_clean_stack:
  "clean_stack rooted out \<Longrightarrow> list_all (\<lambda>e. CHR ''/'' \<notin> set e) es \<Longrightarrow>
    clean_stack rooted (foldl (clean_step rooted) out es)"
  by (induction es arbitrary: out) (auto simp: clean_step_stack)

lemma foldl_clean_id:
  "clean_stack rooted (rev es @ out) \<Longrightarrow> foldl (clean_step rooted) out es = rev es @ out"
proof (induction es arbitrary: out)
  case (Cons e es)
  have "clean_step rooted out e = e # out"
  proof (cases "e = ''..''")
    case True
    then have "\<not> rooted" "\<forall>t\<in>set out. t = ''..''"
      using Cons.prems by (auto simp: clean_stack_def sorted_wrt_append)
    then show ?thesis
      using True by (cases out) (auto simp: clean_step_def)
  next
    case False
    then show ?thesis
      using Cons.prems by (auto simp: clean_stack_def clean_step_def element_def)
  qed
  then show ?case
    using Cons by simp
qed simp

lemma clean_elements_stack: "clean_stack rooted (rev (clean_elements rooted (Split p CHR ''/'')))"
  unfolding clean_elements_def rev_rev_ident
  by (rule foldl_clean_stack) (auto simp: clean_stack_def list_all_iff dest: Split_no_sep)

lemma join_path_head:
  "es \<noteq> [] \<Longrightarrow> list_all element es \<Longrightarrow> join_path es \<noteq> [] \<and> hd (join_path es) \<noteq> CHR ''/''"
  by (induction es rule: join_path.induct) (auto simp: element_def hd_append dest: hd_in_set)

lemma IsAbs_unclean: "list_all element es \<Longrightarrow> IsAbs (unclean rooted es) = rooted"
  using join_path_head [of es] by (auto simp: unclean_def IsAbs_def)

lemma clean_elements_unclean:
  assumes "clean_stack rooted (rev es)"
  shows "clean_elements rooted (Split (unclean rooted es) CHR ''/'') = es"
proof -
  have sl: "list_all (\<lambda>e. CHR ''/'' \<notin> set e) es"
    using assms by (auto simp: clean_stack_def element_def list_all_iff)
  have es: "foldl (clean_step rooted) [] es = rev es"
    using foldl_clean_id [of rooted es "[]"] assms by simp
  show ?thesis
    using Split_join [OF _ sl] es
    by (cases "es = []"; cases rooted) (simp_all add: unclean_def clean_elements_def clean_step_def)
qed

lemma Clean_unclean: "clean_stack rooted (rev es) \<Longrightarrow> Clean (unclean rooted es) = unclean rooted es"
  by (simp add: Clean_def clean_elements_unclean IsAbs_unclean clean_stack_def)

lemma Clean_idem [simp]: "Clean (Clean p) = Clean p"
  using Clean_unclean [OF clean_elements_stack] by (simp add: Clean_def)

text \<open>Appending a name to a path appends it to the clean elements.\<close>

lemma clean_elements_snoc:
  assumes "element x" "x \<noteq> ''..''"
  shows "clean_elements rooted (Split (d @ CHR ''/'' # x) CHR ''/'') =
    clean_elements rooted (Split d CHR ''/'') @ [x]"
  using assms by (simp add: clean_elements_def Split_append Split_plain element_def clean_step_def)

lemma Clean_snoc:
  assumes "element x" "x \<noteq> ''..''" "d \<noteq> []"
  shows "Clean (d @ CHR ''/'' # x) =
    unclean (IsAbs d) (clean_elements (IsAbs d) (Split d CHR ''/'') @ [x])"
  using assms by (simp add: Clean_def clean_elements_snoc IsAbs_def)

lemma join_path_snoc: "es \<noteq> [] \<Longrightarrow> join_path (es @ [x]) = join_path es @ CHR ''/'' # x"
  by (induction es rule: join_path.induct) auto

lemma filepath_Dir_unclean:
  assumes "clean_stack rooted (rev (es @ [x]))"
  shows "filepath_Dir (unclean rooted (es @ [x])) = unclean rooted es"
proof -
  have x: "CHR ''/'' \<notin> set x" and es: "clean_stack rooted (rev es)" "list_all element es"
    using assms by (auto simp: clean_stack_def element_def)
  have cut: "rev (dropWhile (\<lambda>c. c \<noteq> CHR ''/'') (rev (a @ CHR ''/'' # x))) = a @ [CHR ''/'']"
      "dropWhile (\<lambda>c. c \<noteq> CHR ''/'') (rev x) = []" for a
    using x by (auto simp: dropWhile_append3 dropWhile_eq_Nil_conv)
  have el: "clean_elements rooted (es @ [[]]) = es" "clean_elements rooted ([] # es @ [[]]) = es"
    using foldl_clean_id [of rooted es "[]"] es by (simp_all add: clean_elements_def clean_step_def)
  have sp: "es \<noteq> [] \<Longrightarrow> Split (join_path es @ [CHR ''/'']) CHR ''/'' = es @ [[]]"
    using Split_append [of "join_path es" "CHR ''/''" "[]"] Split_join [of es] es(2)
    by (auto simp: list_all_iff element_def)
  show ?thesis
  proof (cases "es = []")
    case True
    then show ?thesis
      using cut(1) [of "[]"] by (cases rooted) (simp_all add: unclean_def filepath_Dir_def Clean_def
          IsAbs_def clean_elements_def clean_step_def cut(2))
  next
    case False
    then show ?thesis
      using cut(1) [of "join_path es"] cut(1) [of "CHR ''/'' # join_path es"] sp el join_path_head [of es] es(2)
      by (cases rooted) (simp_all add: unclean_def filepath_Dir_def Clean_def IsAbs_def join_path_snoc)
  qed
qed

end
