(* ===== verification/Config.thy ===== *)
theory Config
  imports Go_Os Api
begin

text \<open>
  Configuration, \<open>src/internal/config/config.go\<close>: the records, \<open>Default\<close>, \<open>Validate\<close>,
  \<open>Load\<close> and the accessors.  The YAML decoder and the file system are parameters of
  \<open>Load\<close>.
\<close>

subsection \<open>Default locations\<close>

definition DefaultCAPaths :: "(string \<Rightarrow> string) \<Rightarrow> go_error + string \<times> string" where
  "DefaultCAPaths getenv =
     (case UserConfigDir getenv of
        Inl err \<Rightarrow> Inl err
      | Inr dir \<Rightarrow>
          let base = filepath_Join [dir, ''tg-proxy''] in
          Inr (filepath_Join [base, ''ca.crt''], filepath_Join [base, ''ca.key'']))"

subsection \<open>Records\<close>

record log_config =
  lcLevel :: string
  lcFormat :: string

record limits_config =
  lmMaxBodySize :: int
  lmReadTimeoutS :: int
  lmWriteTimeoutS :: int
  lmIdleTimeoutS :: int

record external_config =
  exCommand :: "string list"
  exEnv :: "string list"
  exHandshakeTimeoutSeconds :: int

record scanner_config =
  scfName :: string
  scfEnabled :: bool
  scfExternal :: "external_config option"

record ca_config =
  caCertPath :: string
  caKeyPath :: string
  caOrganization :: string

record tls_config =
  tlMITM :: bool
  tlCA :: ca_config
  tlLeafCacheSize :: int
  tlUpstreamInsecure :: bool

record streaming_config =
  smWindowBytes :: int

record redactor_config =
  rcName :: string
  rcConfig :: "string \<rightharpoonup> any_value"
  rcExternal :: "external_config option"

record config =
  cfListen :: string
  cfLog :: log_config
  cfLimits :: limits_config
  cfTLS :: tls_config
  cfStreaming :: streaming_config
  cfScanners :: "scanner_config list"
  cfRedactor :: redactor_config

subsection \<open>Defaults\<close>

definition Default :: config where
  "Default =
     \<lparr>cfListen = ''127.0.0.1:8080'',
      cfLog = \<lparr>lcLevel = ''info'', lcFormat = ''text''\<rparr>,
      cfLimits = \<lparr>lmMaxBodySize = 10 * 1024 * 1024, lmReadTimeoutS = 30, lmWriteTimeoutS = 30,
                  lmIdleTimeoutS = 120\<rparr>,
      cfTLS = \<lparr>tlMITM = False,
               tlCA = \<lparr>caCertPath = [], caKeyPath = [], caOrganization = ''tg-proxy CA''\<rparr>,
               tlLeafCacheSize = 1024, tlUpstreamInsecure = False\<rparr>,
      cfStreaming = \<lparr>smWindowBytes = 4096\<rparr>,
      cfScanners =
        [\<lparr>scfName = ''pii'', scfEnabled = True, scfExternal = None\<rparr>,
         \<lparr>scfName = ''secrets'', scfEnabled = True, scfExternal = None\<rparr>,
         \<lparr>scfName = ''sqli'', scfEnabled = False, scfExternal = None\<rparr>,
         \<lparr>scfName = ''code'', scfEnabled = False, scfExternal = None\<rparr>],
      cfRedactor = \<lparr>rcName = ''mask'', rcConfig = [''placeholder'' \<mapsto> AnyString ''[REDACTED]''],
                    rcExternal = None\<rparr>\<rparr>"

subsection \<open>Validation\<close>

datatype log_level = LevelDebug | LevelInfo | LevelWarn | LevelError

definition ParseLogLevel :: "(string \<Rightarrow> string) \<Rightarrow> string \<Rightarrow> go_error + log_level" where
  "ParseLogLevel uni s =
     (let l = ToLower uni s in
      if l = [] \<or> l = ''info'' then Inr LevelInfo
      else if l = ''debug'' then Inr LevelDebug
      else if l = ''warn'' \<or> l = ''warning'' then Inr LevelWarn
      else if l = ''error'' then Inr LevelError
      else Inl (GoErr ''invalid log level %q'' [s]))"

text \<open>The loop over the scanner entries, which counts the enabled ones.\<close>

fun validate_scanners :: "scanner_config list \<Rightarrow> nat \<Rightarrow> go_error + nat" where
  "validate_scanners [] enabled = Inr enabled"
| "validate_scanners (s # ss) enabled =
     (if scfName s = [] then Inl (GoErr ''scanner entry missing name'' [])
      else if (case scfExternal s of None \<Rightarrow> False | Some e \<Rightarrow> exCommand e = [])
      then Inl (GoErr ''scanner %q: external.command must not be empty'' [scfName s])
      else validate_scanners ss (if scfEnabled s then enabled + 1 else enabled))"

definition Validate :: "(string \<Rightarrow> string) \<Rightarrow> config \<Rightarrow> go_error option" where
  "Validate uni c =
     (if cfListen c = [] then Some (GoErr ''listen must be set'' [])
      else if lmMaxBodySize (cfLimits c) \<le> 0
      then Some (GoErr ''limits.max_body_size must be > 0'' [])
      else if lmReadTimeoutS (cfLimits c) < 0 \<or> lmWriteTimeoutS (cfLimits c) < 0 \<or>
              lmIdleTimeoutS (cfLimits c) < 0
      then Some (GoErr ''timeouts must be >= 0'' [])
      else case ParseLogLevel uni (lcLevel (cfLog c)) of
        Inl err \<Rightarrow> Some err
      | Inr lvl \<Rightarrow>
      if \<not> (lcFormat (cfLog c) = [] \<or> lcFormat (cfLog c) = ''text'' \<or> lcFormat (cfLog c) = ''json'')
      then Some (GoErr ''log.format must be text or json, got %q'' [lcFormat (cfLog c)])
      else if rcName (cfRedactor c) = [] then Some (GoErr ''redactor.name must be set'' [])
      else if tlMITM (cfTLS c) \<and> (caCertPath (tlCA (cfTLS c)) = [] \<or> caKeyPath (tlCA (cfTLS c)) = [])
      then Some (GoErr ''tls.mitm requires tls.ca.cert_path and tls.ca.key_path'' [])
      else if tlLeafCacheSize (cfTLS c) < 0
      then Some (GoErr ''tls.leaf_cache_size must be >= 0'' [])
      else if smWindowBytes (cfStreaming c) < 0
      then Some (GoErr ''streaming.window_bytes must be >= 0'' [])
      else case validate_scanners (cfScanners c) 0 of
        Inl err \<Rightarrow> Some err
      | Inr enabled \<Rightarrow>
      if enabled = 0 then Some (GoErr ''at least one scanner must be enabled'' [])
      else if (case rcExternal (cfRedactor c) of None \<Rightarrow> False | Some e \<Rightarrow> exCommand e = [])
      then Some (GoErr ''redactor.external.command must not be empty'' [])
      else None)"

text \<open>
  \<open>Load\<close>: \<open>readFile\<close> is the file system and \<open>decode\<close> the YAML decoder with
  \<open>KnownFields\<close>, which overwrites the fields of the default configuration that the text sets.
\<close>

definition Load ::
  "(string \<Rightarrow> string) \<Rightarrow> (string \<Rightarrow> go_error + bytes) \<Rightarrow> (bytes \<Rightarrow> config \<Rightarrow> go_error + config)
    \<Rightarrow> string \<Rightarrow> go_error + config" where
  "Load uni readFile decode path =
     (case readFile path of
        Inl err \<Rightarrow> Inl (WrapErr (''config: read '' @ path @ '': %w'') err)
      | Inr raw \<Rightarrow>
          (case decode raw Default of
             Inl err \<Rightarrow> Inl (WrapErr (''config: parse '' @ path @ '': %w'') err)
           | Inr cfg \<Rightarrow>
               (case Validate uni cfg of
                  Some err \<Rightarrow> Inl (WrapErr (''config: validate '' @ path @ '': %w'') err)
                | None \<Rightarrow> Inr cfg)))"

subsection \<open>Accessors\<close>

definition Second :: int where "Second = 10 ^ 9"

definition ReadTimeout :: "limits_config \<Rightarrow> int" where
  "ReadTimeout l = wrap64 (lmReadTimeoutS l * Second)"

definition WriteTimeout :: "limits_config \<Rightarrow> int" where
  "WriteTimeout l = wrap64 (lmWriteTimeoutS l * Second)"

definition IdleTimeout :: "limits_config \<Rightarrow> int" where
  "IdleTimeout l = wrap64 (lmIdleTimeoutS l * Second)"

definition EnabledScanners :: "config \<Rightarrow> string list" where
  "EnabledScanners c = map scfName (filter scfEnabled (cfScanners c))"

subsection \<open>What validation guarantees\<close>

definition entry_ok :: "scanner_config \<Rightarrow> bool" where
  "entry_ok s \<longleftrightarrow> scfName s \<noteq> [] \<and> (\<forall>e. scfExternal s = Some e \<longrightarrow> exCommand e \<noteq> [])"

lemma validate_scanners_iff:
  "validate_scanners ss n = Inr m \<longleftrightarrow>
    (\<forall>s\<in>set ss. entry_ok s) \<and> m = n + length (filter scfEnabled ss)"
  by (induction ss arbitrary: n) (auto simp: entry_ok_def split: option.splits)

lemma Validate_accepts:
  assumes "Validate uni c = None"
  shows "cfListen c \<noteq> []" "0 < lmMaxBodySize (cfLimits c)" "0 \<le> lmReadTimeoutS (cfLimits c)"
    "0 \<le> lmWriteTimeoutS (cfLimits c)" "0 \<le> lmIdleTimeoutS (cfLimits c)"
    "\<exists>lvl. ParseLogLevel uni (lcLevel (cfLog c)) = Inr lvl"
    "lcFormat (cfLog c) \<in> {[], ''text'', ''json''}" "rcName (cfRedactor c) \<noteq> []"
    "tlMITM (cfTLS c) \<Longrightarrow> caCertPath (tlCA (cfTLS c)) \<noteq> []"
    "tlMITM (cfTLS c) \<Longrightarrow> caKeyPath (tlCA (cfTLS c)) \<noteq> []"
    "0 \<le> tlLeafCacheSize (cfTLS c)" "0 \<le> smWindowBytes (cfStreaming c)"
    "\<forall>s\<in>set (cfScanners c). entry_ok s" "EnabledScanners c \<noteq> []"
    "\<forall>e. rcExternal (cfRedactor c) = Some e \<longrightarrow> exCommand e \<noteq> []"
proof -
  obtain lvl where lvl: "ParseLogLevel uni (lcLevel (cfLog c)) = Inr lvl"
    using assms by (fastforce simp: Validate_def split: if_splits sum.splits)
  obtain n where n: "validate_scanners (cfScanners c) 0 = Inr n"
    using assms by (fastforce simp: Validate_def lvl split: if_splits sum.splits)
  note v = assms [unfolded Validate_def lvl n, simplified]
  show "\<exists>lvl. ParseLogLevel uni (lcLevel (cfLog c)) = Inr lvl" using lvl by blast
  show "\<forall>s\<in>set (cfScanners c). entry_ok s" using n by (simp add: validate_scanners_iff)
  show "EnabledScanners c \<noteq> []"
    using n v by (auto simp: validate_scanners_iff EnabledScanners_def split: if_splits)
  show "cfListen c \<noteq> []" "0 < lmMaxBodySize (cfLimits c)" "0 \<le> lmReadTimeoutS (cfLimits c)"
    "0 \<le> lmWriteTimeoutS (cfLimits c)" "0 \<le> lmIdleTimeoutS (cfLimits c)"
    "lcFormat (cfLog c) \<in> {[], ''text'', ''json''}" "rcName (cfRedactor c) \<noteq> []"
    "tlMITM (cfTLS c) \<Longrightarrow> caCertPath (tlCA (cfTLS c)) \<noteq> []"
    "tlMITM (cfTLS c) \<Longrightarrow> caKeyPath (tlCA (cfTLS c)) \<noteq> []"
    "0 \<le> tlLeafCacheSize (cfTLS c)" "0 \<le> smWindowBytes (cfStreaming c)"
    "\<forall>e. rcExternal (cfRedactor c) = Some e \<longrightarrow> exCommand e \<noteq> []"
    using v by (auto split: if_splits option.splits)
qed

lemma Default_valid: "Validate uni Default = None"
proof -
  have "ParseLogLevel uni ''info'' = Inr LevelInfo"
    by (simp add: ParseLogLevel_def ToLower_def is_ascii_def lower_char_def)
  then show ?thesis
    by (simp add: Validate_def Default_def)
qed

subsection \<open>Where the CA lives by default\<close>

lemma element_name [simp]: "element ''tg-proxy''" "element ''ca.crt''" "element ''ca.key''"
  by (simp_all add: element_def)

lemma UserConfigDir_nonempty: "UserConfigDir getenv = Inr dir \<Longrightarrow> dir \<noteq> []"
  by (auto simp: UserConfigDir_def Let_def split: if_splits)

lemma Join_pair: "d \<noteq> [] \<Longrightarrow> filepath_Join [d, x] = Clean (d @ CHR ''/'' # x)"
  by (simp add: filepath_Join_def)

lemma clean_stack_snoc: "clean_stack r (rev es) \<Longrightarrow> element x \<Longrightarrow> x \<noteq> ''..'' \<Longrightarrow> clean_stack r (rev (es @ [x]))"
  by (auto simp: clean_stack_def)

lemma unclean_nonempty: "list_all element es \<Longrightarrow> unclean r es \<noteq> []"
  using join_path_head [of es] by (auto simp: unclean_def)

lemma join_path_last:
  "join_path (es @ [x]) = join_path (es @ [y]) \<longleftrightarrow> x = y"
  by (cases "es = []") (simp_all add: join_path_snoc)

text \<open>The default certificate and key are two different files of one directory.\<close>

lemma DefaultCAPaths_siblings:
  assumes "DefaultCAPaths getenv = Inr (cp, kp)"
  shows "Clean cp = cp \<and> Clean kp = kp \<and> cp \<noteq> kp \<and> filepath_Dir cp = filepath_Dir kp"
proof -
  obtain dir where dir: "UserConfigDir getenv = Inr dir" "dir \<noteq> []"
    using assms UserConfigDir_nonempty by (auto simp: DefaultCAPaths_def split: sum.splits)
  let ?r = "IsAbs dir" and ?es = "clean_elements (IsAbs dir) (Split dir CHR ''/'') @ [''tg-proxy'']"
  have st: "clean_stack ?r (rev ?es)"
    by (intro clean_stack_snoc clean_elements_stack) simp_all
  then have el: "list_all element ?es"
    by (simp add: clean_stack_def)
  have base: "filepath_Join [dir, ''tg-proxy''] = unclean ?r ?es"
    using dir(2) by (simp add: Join_pair Clean_snoc)
  have leaf: "filepath_Join [unclean ?r ?es, x] = unclean ?r (?es @ [x])" if "element x" "x \<noteq> ''..''" for x
    unfolding Join_pair [OF unclean_nonempty [OF el]] Clean_snoc [OF that unclean_nonempty [OF el]]
      IsAbs_unclean [OF el] clean_elements_unclean [OF st] ..
  have cp: "cp = unclean ?r (?es @ [''ca.crt''])" and kp: "kp = unclean ?r (?es @ [''ca.key''])"
    using assms dir(1) leaf [of "''ca.crt''"] leaf [of "''ca.key''"] unfolding DefaultCAPaths_def
    by (simp_all add: base Let_def)
  have s: "clean_stack ?r (rev (?es @ [''ca.crt'']))" "clean_stack ?r (rev (?es @ [''ca.key'']))"
    by (rule clean_stack_snoc [OF st]; simp)+
  have "cp \<noteq> kp"
    unfolding cp kp using join_path_last [of ?es "''ca.crt''" "''ca.key''"] by (auto simp: unclean_def)
  then show ?thesis
    unfolding cp kp using Clean_unclean [OF s(1)] Clean_unclean [OF s(2)]
      filepath_Dir_unclean [OF s(1)] filepath_Dir_unclean [OF s(2)] by simp
qed

end
