(* ===== verification/Go_Http.thy ===== *)
theory Go_Http
  imports Go_Net Regex
begin

text \<open>
  What the proxy uses of Go's \<open>net/http\<close>, \<open>strings\<close> and \<open>io\<close>: header maps with
  canonical keys, \<open>Split\<close>, \<open>TrimSpace\<close>, \<open>EqualFold\<close>, and \<open>ReadAll\<close> on a limited
  reader.  A header map is an association list; the order of its entries stands for the
  iteration order of the Go map.
\<close>

subsection \<open>Strings\<close>

text \<open>The UTF-8 encodings of the characters that \<open>unicode.IsSpace\<close> accepts.\<close>

definition space_seqs :: "string list" where
  "space_seqs =
    [[CHR 0x09], [CHR 0x0A], [CHR 0x0B], [CHR 0x0C], [CHR 0x0D], [CHR 0x20], [CHR 0xC2, CHR 0x85],
     [CHR 0xC2, CHR 0xA0], [CHR 0xE1, CHR 0x9A, CHR 0x80], [CHR 0xE2, CHR 0x80, CHR 0x80],
     [CHR 0xE2, CHR 0x80, CHR 0x81], [CHR 0xE2, CHR 0x80, CHR 0x82],
     [CHR 0xE2, CHR 0x80, CHR 0x83], [CHR 0xE2, CHR 0x80, CHR 0x84],
     [CHR 0xE2, CHR 0x80, CHR 0x85], [CHR 0xE2, CHR 0x80, CHR 0x86],
     [CHR 0xE2, CHR 0x80, CHR 0x87], [CHR 0xE2, CHR 0x80, CHR 0x88],
     [CHR 0xE2, CHR 0x80, CHR 0x89], [CHR 0xE2, CHR 0x80, CHR 0x8A],
     [CHR 0xE2, CHR 0x80, CHR 0xA8], [CHR 0xE2, CHR 0x80, CHR 0xA9],
     [CHR 0xE2, CHR 0x80, CHR 0xAF], [CHR 0xE2, CHR 0x81, CHR 0x9F],
     [CHR 0xE3, CHR 0x80, CHR 0x80]]"

definition strip_one :: "string list \<Rightarrow> string \<Rightarrow> string option" where
  "strip_one qs s =
     map_option (\<lambda>q. drop (length q) s) (find (\<lambda>q. take (length q) s = q) (filter (\<lambda>q. q \<noteq> []) qs))"

lemma strip_one_shorter: "strip_one qs s = Some t \<Longrightarrow> length t < length s"
proof -
  assume "strip_one qs s = Some t"
  then obtain q where q: "find (\<lambda>q. take (length q) s = q) (filter (\<lambda>q. q \<noteq> []) qs) = Some q"
      "t = drop (length q) s"
    by (auto simp: strip_one_def)
  then have "take (length q) s = q" "q \<in> set (filter (\<lambda>q. q \<noteq> []) qs)"
    unfolding find_Some_iff by (metis, metis nth_mem)
  then have "q \<noteq> []" "length q \<le> length s"
    by (auto dest: arg_cong [where f = length])
  then show ?thesis
    using q(2) by (cases s) auto
qed

function trim_left :: "string list \<Rightarrow> string \<Rightarrow> string" where
  "trim_left qs s = (case strip_one qs s of None \<Rightarrow> s | Some t \<Rightarrow> trim_left qs t)"
  by pat_completeness auto
termination
  by (relation "measure (\<lambda>(qs, s). length s)") (auto dest: strip_one_shorter)

declare trim_left.simps [simp del]

definition TrimSpace :: "string \<Rightarrow> string" where
  "TrimSpace s = rev (trim_left (map rev space_seqs) (rev (trim_left space_seqs s)))"

text \<open>\<open>strings.EqualFold\<close> against an ASCII text, rune by rune.\<close>

function runes_of :: "bytes \<Rightarrow> rune list" where
  "runes_of bs =
     (if bs = [] then []
      else case DecodeRune bs of (r, w) \<Rightarrow> r # runes_of (drop (max 1 w) bs))"
  by pat_completeness auto
termination
  by (relation "measure length") auto

declare runes_of.simps [simp del]

definition EqualFold :: "string \<Rightarrow> string \<Rightarrow> bool" where
  "EqualFold s t = list_all2 (\<lambda>r q. q \<in> set (fold_orbit r)) (runes_of (str s)) (runes_of (str t))"

definition HasPrefix :: "string \<Rightarrow> string \<Rightarrow> bool" where
  "HasPrefix s p \<longleftrightarrow> take (length p) s = p"

subsection \<open>Headers\<close>

definition upper_char :: "char \<Rightarrow> char" where
  "upper_char c =
     (let n = (of_char c :: nat) in if 97 \<le> n \<and> n \<le> 122 then char_of (n - 32) else c)"

definition token_char :: "char \<Rightarrow> bool" where
  "token_char c \<longleftrightarrow>
     (let n = (of_char c :: nat) in
      48 \<le> n \<and> n \<le> 57 \<or> 65 \<le> n \<and> n \<le> 90 \<or> 97 \<le> n \<and> n \<le> 122 \<or>
      c \<in> set ''!#$%&*+-.^_`|~'' \<or> n = 0x27)"

fun canon_loop :: "bool \<Rightarrow> string \<Rightarrow> string" where
  "canon_loop up [] = []"
| "canon_loop up (c # s) =
     (let c' = (if up then upper_char c else lower_char c) in c' # canon_loop (c' = CHR ''-'') s)"

definition CanonicalHeaderKey :: "string \<Rightarrow> string" where
  "CanonicalHeaderKey s = (if list_all token_char s then canon_loop True s else s)"

type_synonym header = "(string \<times> string list) list"

definition header_values :: "header \<Rightarrow> string \<Rightarrow> string list" where
  "header_values h k =
     (case map_of h (CanonicalHeaderKey k) of None \<Rightarrow> [] | Some vs \<Rightarrow> vs)"

definition header_Get :: "header \<Rightarrow> string \<Rightarrow> string" where
  "header_Get h k = (case header_values h k of [] \<Rightarrow> [] | v # _ \<Rightarrow> v)"

definition header_Del :: "header \<Rightarrow> string \<Rightarrow> header" where
  "header_Del h k = filter (\<lambda>p. fst p \<noteq> CanonicalHeaderKey k) h"

definition header_Set :: "header \<Rightarrow> string \<Rightarrow> string \<Rightarrow> header" where
  "header_Set h k v = (CanonicalHeaderKey k, [v]) # header_Del h k"

definition header_Add :: "header \<Rightarrow> string \<Rightarrow> string \<Rightarrow> header" where
  "header_Add h k v = (CanonicalHeaderKey k, header_values h k @ [v]) # header_Del h k"

lemma map_of_header_Del: "map_of (header_Del h k) j = (if j = CanonicalHeaderKey k then None else map_of h j)"
  by (induction h) (auto simp: header_Del_def)

lemma map_of_header_Set:
  "map_of (header_Set h k v) j = (if j = CanonicalHeaderKey k then Some [v] else map_of h j)"
  by (simp add: header_Set_def map_of_header_Del)

lemma map_of_header_Add:
  "map_of (header_Add h k v) j =
    (if j = CanonicalHeaderKey k then Some (header_values h k @ [v]) else map_of h j)"
  by (simp add: header_Add_def map_of_header_Del)

subsection \<open>Reading a body\<close>

text \<open>
  A reader delivers its bytes and then an error (\<open>None\<close> is EOF), together with the last bytes or
  on the next call.  \<open>LimitedReader\<close> stops after \<open>n\<close> bytes with EOF; it sees the error only
  if it comes within them.
\<close>

record reader =
  rdrData :: bytes
  rdrErr :: "go_error option"
  rdrWithLast :: bool

definition ReadAll :: "reader \<Rightarrow> bytes \<times> go_error option" where
  "ReadAll r = (rdrData r, rdrErr r)"

definition ReadAll_limited :: "reader \<Rightarrow> int \<Rightarrow> bytes \<times> go_error option" where
  "ReadAll_limited r n =
     (if n \<le> 0 then ([], None)
      else if int (length (rdrData r)) < n then (rdrData r, rdrErr r)
      else if int (length (rdrData r)) = n \<and> rdrWithLast r then (rdrData r, rdrErr r)
      else (take (nat n) (rdrData r), None))"

end
