(* ===== verification/Proxy.thy ===== *)
theory Proxy
  imports Streaming Go_Http Cert_Store
begin

text \<open>
  The proxy server, \<open>src/internal/proxy/proxy.go\<close> and \<open>mitm.go\<close>: bounded reading of
  bodies, header handling, the plain-HTTP handler with its buffered and streamed responses, and the
  one-connection listener.  The network is a parameter: the round trip to the upstream and the
  client's side of writes.
\<close>

subsection \<open>Bodies\<close>

definition ErrBodyTooLarge :: go_error where
  "ErrBodyTooLarge = Sentinel ''body exceeds configured limit''"

definition readBodyWithLimit :: "reader option \<Rightarrow> int \<Rightarrow> go_error + bytes" where
  "readBodyWithLimit r mx =
     (case r of
        None \<Rightarrow> Inr []
      | Some rd \<Rightarrow>
          if mx \<le> 0 then
            (case ReadAll rd of (body, None) \<Rightarrow> Inr body | (body, Some err) \<Rightarrow> Inl err)
          else
            (case ReadAll_limited rd (wrap64 (mx + 1)) of
               (body, Some err) \<Rightarrow> Inl err
             | (body, None) \<Rightarrow> if int (length body) > mx then Inl ErrBodyTooLarge else Inr body))"

subsection \<open>Headers\<close>

definition hopHeaders :: "string list" where
  "hopHeaders = [''Connection'', ''Proxy-Connection'', ''Keep-Alive'', ''Proxy-Authenticate'',
     ''Proxy-Authorization'', ''Te'', ''Trailer'', ''Transfer-Encoding'', ''Upgrade'']"

definition removeHopHeaders :: "header \<Rightarrow> header" where
  "removeHopHeaders h =
     (let c = header_Get h ''Connection'';
          h1 = (if c \<noteq> [] then foldl (\<lambda>h name. header_Del h (TrimSpace name)) h (Split c CHR '','')
                else h) in
      foldl header_Del h1 hopHeaders)"

definition copyHeaders :: "header \<Rightarrow> header \<Rightarrow> header" where
  "copyHeaders dst src =
     foldl (\<lambda>d (k, vs). foldl (\<lambda>d v. header_Add d k v) d vs) dst src"

subsection \<open>Requests and responses\<close>

record request =
  rqMethod :: string
  rqURL :: string
  rqIsAbs :: bool
  rqHeader :: header
  rqBody :: "reader option"

record out_request =
  orMethod :: string
  orURL :: string
  orHeader :: header
  orBody :: bytes
  orContentLength :: int

text \<open>\<open>rsTurns\<close> is how the body arrives when it is streamed.\<close>

record response =
  rsStatus :: int
  rsHeader :: header
  rsContentLength :: int
  rsTransferEncoding :: "string list"
  rsBody :: reader
  rsTurns :: "turn list"

datatype reply =
    ErrorReply int string "go_error option"
  | Reply int header bytes
  | Streamed int header outcome

record network =
  nwNewRequest :: "string \<Rightarrow> string \<Rightarrow> go_error option"
  nwDo :: "out_request \<Rightarrow> go_error + response"
  nwWriter :: writer
  nwFlusher :: bool
  nwGrow :: "nat \<Rightarrow> nat \<Rightarrow> nat"

text \<open>The options of a server that its handlers read.\<close>

record server =
  svPipeline :: pipeline
  svMaxBody :: int
  svStreamWindow :: int
  svCertStore :: "store option"

definition StatusBadRequest :: int where "StatusBadRequest = 400"
definition StatusRequestEntityTooLarge :: int where "StatusRequestEntityTooLarge = 413"
definition StatusInternalServerError :: int where "StatusInternalServerError = 500"
definition StatusBadGateway :: int where "StatusBadGateway = 502"

definition replyError :: "go_error \<Rightarrow> string \<Rightarrow> reply" where
  "replyError err op =
     (let status = (if errors_Is err ErrBodyTooLarge then StatusRequestEntityTooLarge
                    else StatusBadGateway) in
      ErrorReply status (op @ '': '') (Some err))"

definition isStreamableResponse :: "(string \<Rightarrow> string) \<Rightarrow> response \<Rightarrow> bool" where
  "isStreamableResponse uni resp =
     (if rsContentLength resp < 0 then True
      else if list_ex (\<lambda>te. EqualFold te ''chunked'') (rsTransferEncoding resp) then True
      else HasPrefix (ToLower uni (header_Get (rsHeader resp) ''Content-Type'')) ''text/event-stream'')"

definition streamResponse :: "network \<Rightarrow> server \<Rightarrow> response \<Rightarrow> hints \<Rightarrow> reply" where
  "streamResponse nw s resp h =
     (let dst = header_Del (header_Del (removeHopHeaders (copyHeaders [] (rsHeader resp)))
                 ''Content-Length'') ''Transfer-Encoding'';
          sp = NewStreamProcessor \<lparr>soScanners = plScanners (svPipeline s),
                 soRedactor = plRedactor (svPipeline s), soHints = h,
                 soWindow = svStreamWindow s, soMaxBuffer = 0\<rparr> in
      Streamed (rsStatus resp) dst
        (Pipe (nwGrow nw) sp (nwWriter nw) (nwFlusher nw) (rsTurns resp) stream_start))"

text \<open>The request that is forwarded, from the outcome of scanning the client's body.\<close>

definition forward :: "request \<Rightarrow> bytes \<Rightarrow> out_request" where
  "forward r body =
     \<lparr>orMethod = rqMethod r, orURL = rqURL r,
      orHeader = header_Set (removeHopHeaders (copyHeaders [] (rqHeader r))) ''Via'' ''1.1 tg-proxy'',
      orBody = body, orContentLength = int (length body)\<rparr>"

definition respond :: "response \<Rightarrow> bytes \<Rightarrow> reply" where
  "respond resp body =
     (let dst = header_Del (header_Del (removeHopHeaders (copyHeaders [] (rsHeader resp)))
                 ''Content-Length'') ''Transfer-Encoding'' in
      Reply (rsStatus resp) (header_Set dst ''Content-Length'' (itoa (length body))) body)"

text \<open>The handler: what it sends upstream, if anything, and what it answers the client.\<close>

definition handleHTTP ::
  "(string \<Rightarrow> string) \<Rightarrow> (bytes \<Rightarrow> bytes) \<Rightarrow> network \<Rightarrow> server \<Rightarrow> request
    \<Rightarrow> out_request option \<times> reply" where
  "handleHTTP uni nfkc nw s r =
     (if \<not> rqIsAbs r then
        (None, ErrorReply StatusBadRequest ''tg-proxy expects absolute-URL proxy requests'' None)
      else case readBodyWithLimit (rqBody r) (svMaxBody s) of
        Inl err \<Rightarrow> (None, replyError err ''read request body'')
      | Inr reqBody \<Rightarrow>
          let reqResult = fst (pipeline_Process nfkc (svPipeline s) reqBody
                \<lparr>hContentType = header_Get (rqHeader r) ''Content-Type'', hURL = rqURL r,
                 hMethod = rqMethod r, hDirection = DirectionRequest\<rparr>) in
          (case nwNewRequest nw (rqMethod r) (rqURL r) of
             Some err \<Rightarrow> (None, replyError err ''build upstream request'')
           | None \<Rightarrow>
               let outReq = forward r (resData reqResult) in
               (case nwDo nw outReq of
                  Inl err \<Rightarrow> (Some outReq, replyError err ''upstream request'')
                | Inr resp \<Rightarrow>
                    let h = \<lparr>hContentType = header_Get (rsHeader resp) ''Content-Type'',
                             hURL = rqURL r, hMethod = rqMethod r,
                             hDirection = DirectionResponse\<rparr> in
                    if isStreamableResponse uni resp
                    then (Some outReq, streamResponse nw s resp h)
                    else case readBodyWithLimit (Some (rsBody resp)) (svMaxBody s) of
                      Inl err \<Rightarrow> (Some outReq, replyError err ''read response body'')
                    | Inr respBody \<Rightarrow>
                        (Some outReq, respond resp
                           (resData (fst (pipeline_Process nfkc (svPipeline s) respBody h)))))))"


subsection \<open>Interception\<close>

text \<open>An intercepted request in origin form becomes absolute before it is handled.\<close>

definition promote :: "string \<Rightarrow> string \<Rightarrow> request \<Rightarrow> request" where
  "promote host path r = r\<lparr>rqURL := ''https://'' @ host @ path, rqIsAbs := True\<rparr>"

definition mitm_handler ::
  "(string \<Rightarrow> string) \<Rightarrow> (bytes \<Rightarrow> bytes) \<Rightarrow> network \<Rightarrow> server \<Rightarrow> string \<Rightarrow> string \<Rightarrow> request
    \<Rightarrow> out_request option \<times> reply" where
  "mitm_handler uni nfkc nw s host path r = handleHTTP uni nfkc nw s (promote host path r)"

subsection \<open>The one-connection listener\<close>

record listener =
  lsAccept :: "string option"
  lsClosed :: bool

datatype accepted = Conn string | AcceptEOF

definition newSingleConnListener :: "string \<Rightarrow> listener" where
  "newSingleConnListener c = \<lparr>lsAccept = Some c, lsClosed = False\<rparr>"

text \<open>
  \<open>Accept\<close> is a select over the buffered channel and the close signal: when both are ready either
  may be taken, when neither is it blocks.
\<close>

inductive Accept :: "listener \<Rightarrow> accepted \<Rightarrow> listener \<Rightarrow> bool" where
  take: "lsAccept l = Some c \<Longrightarrow> Accept l (Conn c) (l\<lparr>lsAccept := None\<rparr>)"
| closed: "lsClosed l \<Longrightarrow> Accept l AcceptEOF l"

inductive_simps Accept_iff: "Accept l r l'"

definition listener_Close :: "listener \<Rightarrow> listener" where
  "listener_Close l = l\<lparr>lsClosed := True\<rparr>"

inductive listener_run :: "string \<Rightarrow> accepted list \<Rightarrow> listener \<Rightarrow> bool" for c :: string where
  start: "listener_run c [] (newSingleConnListener c)"
| accept: "listener_run c rs l \<Longrightarrow> Accept l r l' \<Longrightarrow> listener_run c (rs @ [r]) l'"
| close: "listener_run c rs l \<Longrightarrow> listener_run c rs (listener_Close l)"

lemma listener_run_inv:
  "listener_run c rs l \<Longrightarrow>
    filter (\<lambda>r. r \<noteq> AcceptEOF) rs = (if lsAccept l = None then [Conn c] else []) \<and>
    (lsAccept l = None \<or> lsAccept l = Some c)"
  by (induction rule: listener_run.induct)
    (auto simp: newSingleConnListener_def listener_Close_def Accept_iff)

subsection \<open>Lemmas on bodies and headers\<close>

lemma readBody_small:
  assumes "0 < mx" "mx < 2 ^ 63 - 1" "int (length (rdrData rd)) \<le> mx"
  shows "readBodyWithLimit (Some rd) mx = (case rdrErr rd of None \<Rightarrow> Inr (rdrData rd) | Some e \<Rightarrow> Inl e)"
  using assms by (simp add: readBodyWithLimit_def ReadAll_limited_def split: option.split)

lemma readBody_large:
  assumes "0 < mx" "mx < 2 ^ 63 - 1" "mx < int (length (rdrData rd))"
  shows "\<exists>e. readBodyWithLimit (Some rd) mx = Inl e \<and> (e = ErrBodyTooLarge \<or> rdrErr rd = Some e)"
proof -
  have "wrap64 (mx + 1) = mx + 1"
    using assms by simp
  then show ?thesis
    using assms by (auto simp: readBodyWithLimit_def ReadAll_limited_def min_def split: option.splits)
qed

lemma map_of_Del_fold:
  "map_of (foldl header_Del h ks) j = (if j \<in> CanonicalHeaderKey ` set ks then None else map_of h j)"
  by (induction ks arbitrary: h) (auto simp: map_of_header_Del)

lemma foldl_Del_trim:
  "foldl (\<lambda>h name. header_Del h (TrimSpace name)) h ks = foldl header_Del h (map TrimSpace ks)"
  by (induction ks arbitrary: h) simp_all

definition connection_tokens :: "header \<Rightarrow> string list" where
  "connection_tokens h =
     (let c = header_Get h ''Connection'' in if c = [] then [] else map TrimSpace (Split c CHR '',''))"

lemma removeHopHeaders_eq: "removeHopHeaders h = foldl header_Del h (connection_tokens h @ hopHeaders)"
  by (simp add: removeHopHeaders_def connection_tokens_def foldl_Del_trim Let_def)

lemma map_of_removeHopHeaders:
  "map_of (removeHopHeaders h) j =
    (if j \<in> CanonicalHeaderKey ` set (connection_tokens h @ hopHeaders) then None else map_of h j)"
  unfolding removeHopHeaders_eq by (rule map_of_Del_fold)


subsection \<open>What the handler forwards\<close>

lemma handleHTTP_forwards:
  assumes "fst (handleHTTP uni nfkc nw s r) = Some out"
  obtains body where "readBodyWithLimit (rqBody r) (svMaxBody s) = Inr body"
    "out = forward r (resData (fst (pipeline_Process nfkc (svPipeline s) body
       \<lparr>hContentType = header_Get (rqHeader r) ''Content-Type'', hURL = rqURL r,
        hMethod = rqMethod r, hDirection = DirectionRequest\<rparr>)))"
proof -
  obtain body where body: "readBodyWithLimit (rqBody r) (svMaxBody s) = Inr body"
    using assms unfolding handleHTTP_def by (auto split: if_splits sum.splits)
  have "out = forward r (resData (fst (pipeline_Process nfkc (svPipeline s) body
       \<lparr>hContentType = header_Get (rqHeader r) ''Content-Type'', hURL = rqURL r,
        hMethod = rqMethod r, hDirection = DirectionRequest\<rparr>)))"
    using assms unfolding handleHTTP_def Let_def body
    by (auto split: if_splits sum.splits option.splits)
  then show ?thesis
    using body that by blast
qed


subsection \<open>Properties\<close>

text \<open>
  C25: Reading a body with a limit below the largest 64-bit integer returns the body exactly when
  it was read to the end without an error and fits the limit; it never returns a truncated body.
\<close>

theorem readBody_exact:
  assumes "0 < mx" "mx < 2 ^ 63 - 1"
  shows "readBodyWithLimit (Some rd) mx = Inr body \<longleftrightarrow>
    body = rdrData rd \<and> rdrErr rd = None \<and> int (length (rdrData rd)) \<le> mx"
proof (cases "int (length (rdrData rd)) \<le> mx")
  case True
  then show ?thesis
    using readBody_small [OF assms, of rd] by (auto split: option.splits)
next
  case False
  then show ?thesis
    using readBody_large [OF assms, of rd] by auto
qed

lemma readBody_exact_witness:
  "readBodyWithLimit (Some \<lparr>rdrData = [1, 2, 3], rdrErr = None, rdrWithLast = False\<rparr>) 3 = Inr [1, 2, 3] \<and>
   readBodyWithLimit (Some \<lparr>rdrData = [1, 2, 3], rdrErr = None, rdrWithLast = False\<rparr>) 2 \<noteq> Inr [1, 2]"
  by (simp add: readBody_exact)

text \<open>
  With the largest limit a configuration can hold, \<open>max + 1\<close> wraps to a negative number, the
  limited reader delivers nothing, and every body is replaced by an empty one without an error.
\<close>

lemma readBody_max_limit_empties:
  "readBodyWithLimit (Some rd) (2 ^ 63 - 1) = Inr []"
  by (simp add: readBodyWithLimit_def ReadAll_limited_def wrap64_def)

text \<open>
  C27: Removing hop-by-hop headers deletes the standard ones and those the first \<open>Connection\<close> value
  lists, and leaves the values of every other header as they were.
\<close>

theorem hop_headers_removed:
  "map_of (removeHopHeaders h) k =
    (if k \<in> CanonicalHeaderKey ` set hopHeaders \<or> k \<in> CanonicalHeaderKey ` set (connection_tokens h)
     then None else map_of h k)"
  unfolding map_of_removeHopHeaders by (auto simp: image_Un)

text \<open>
  Only the first \<open>Connection\<close> line counts: a header named by a second one is forwarded.
\<close>

lemma second_connection_line_ignored:
  "map_of (removeHopHeaders [(''Connection'', [''close'', ''X-Hop'']), (''X-Hop'', [''v''])]) ''X-Hop'' =
    Some [''v'']"
  by code_simp

text \<open>
  C26: A request body over the limit is answered with status 413 (or with 502 when the reader
  itself failed), and nothing of the request reaches the upstream.
\<close>

theorem oversized_request_not_forwarded:
  assumes "rqIsAbs r" "rqBody r = Some rd" "0 < svMaxBody s" "svMaxBody s < 2 ^ 63 - 1"
    "svMaxBody s < int (length (rdrData rd))" "rdrErr rd = None"
  shows "handleHTTP uni nfkc nw s r =
    (None, ErrorReply StatusRequestEntityTooLarge ''read request body: '' (Some ErrBodyTooLarge))"
proof -
  have "readBodyWithLimit (rqBody r) (svMaxBody s) = Inl ErrBodyTooLarge"
    using readBody_large [OF assms(3-5)] assms(2,6) by auto
  then show ?thesis
    using assms(1) by (simp add: handleHTTP_def replyError_def ErrBodyTooLarge_def)
qed

definition sample_network :: network where
  "sample_network = \<lparr>nwNewRequest = (\<lambda>m u. None), nwDo = (\<lambda>out. Inl (GoErr ''unreachable'' [])),
     nwWriter = accepting, nwFlusher = True, nwGrow = exact_grow\<rparr>"

definition sample_server :: server where
  "sample_server = \<lparr>svPipeline = pipeline_New [sample_scanner] (Some (mask_api (mask_New ''*''))),
     svMaxBody = 2, svStreamWindow = 0, svCertStore = None\<rparr>"

definition sample_request :: "bytes \<Rightarrow> request" where
  "sample_request body = \<lparr>rqMethod = ''POST'', rqURL = ''http://h/'', rqIsAbs = True, rqHeader = [],
     rqBody = Some \<lparr>rdrData = body, rdrErr = None, rdrWithLast = False\<rparr>\<rparr>"

lemma oversized_request_not_forwarded_witness:
  "handleHTTP id id sample_network sample_server (sample_request [1, 2, 3]) =
    (None, ErrorReply StatusRequestEntityTooLarge ''read request body: '' (Some ErrBodyTooLarge))"
  by (rule oversized_request_not_forwarded
        [where rd = "\<lparr>rdrData = [1, 2, 3], rdrErr = None, rdrWithLast = False\<rparr>"])
    (simp_all add: sample_request_def sample_server_def)

text \<open>
  The listener delivers its connection at most once, in every interleaving of accepts and
  closes; an accept can proceed unless the connection is taken and the listener open, and after a
  close it always can.
\<close>

lemma listener_once:
  assumes "listener_run c rs l"
  shows "count_list rs (Conn c) \<le> 1 \<and> set rs \<subseteq> {Conn c, AcceptEOF} \<and>
    ((\<exists>r l'. Accept l r l') \<longleftrightarrow> Conn c \<notin> set rs \<or> lsClosed l)"
proof -
  have f: "filter (\<lambda>r. r \<noteq> AcceptEOF) rs = (if lsAccept l = None then [Conn c] else [])"
    and a: "lsAccept l = None \<or> lsAccept l = Some c"
    using listener_run_inv [OF assms] by blast+
  have mem: "r \<in> set rs \<and> r \<noteq> AcceptEOF \<longleftrightarrow> r = Conn c \<and> lsAccept l = None" for r
    using arg_cong [OF f, of set] by (auto split: if_splits)
  have "count_list rs (Conn c) = count_list (filter (\<lambda>r. r \<noteq> AcceptEOF) rs) (Conn c)"
    by (induction rs) auto
  then have "count_list rs (Conn c) \<le> 1"
    by (simp add: f)
  moreover have "set rs \<subseteq> {Conn c, AcceptEOF}"
    using mem by blast
  moreover have "(\<exists>r l'. Accept l r l') \<longleftrightarrow> lsAccept l \<noteq> None \<or> lsClosed l"
    by (auto simp: Accept_iff)
  ultimately show ?thesis
    using mem [of "Conn c"] a by auto
qed

end
