(* ===== verification/Cmd.thy ===== *)
theory Cmd
  imports Config Registry Mask Pipeline Pii Secrets Sqli Code_Scanner Plugin_Host Cert_Store
begin

text \<open>
  Start-up wiring, \<open>src/cmd/tg-proxy/main.go\<close> and \<open>resolvePaths\<close> of
  \<open>ca_cmd.go\<close>: which scanners, redactor and certificate store a configuration gives.  The
  plugin library, the user's configuration directory and the loading of a root certificate are
  parameters.
\<close>

subsection \<open>Scanners\<close>

definition builtins :: "scanner list" where
  "builtins = [pii_New, secrets_New, sqli_New, code_New]"

fun register_each :: "scanner list \<Rightarrow> scanner_registry \<Rightarrow> go_error + scanner_registry" where
  "register_each [] reg = Inr reg"
| "register_each (s # ss) reg =
     (case scanner_Register (Some s) reg of
        (Some err, reg') \<Rightarrow> Inl err
      | (None, reg') \<Rightarrow> register_each ss reg')"

definition external_plugin :: "string \<Rightarrow> string \<Rightarrow> external_config \<Rightarrow> plugin_config" where
  "external_plugin kind name ext =
     \<lparr>pcfgName = name, pcfgCommand = exCommand ext, pcfgEnv = exEnv ext, pcfgKind = kind,
      pcfgHandshakeTimeout = wrap64 (exHandshakeTimeoutSeconds ext * Second)\<rparr>"

fun select_scanners ::
  "plugin_lib \<Rightarrow> scanner_registry \<Rightarrow> scanner_config list \<Rightarrow> scanner list \<Rightarrow> host
    \<Rightarrow> (go_error + scanner list) \<times> host" where
  "select_scanners lib reg [] out h = (Inr out, h)"
| "select_scanners lib reg (sc # scs) out h =
     (if \<not> scfEnabled sc then select_scanners lib reg scs out h
      else case scfExternal sc of
        Some ext \<Rightarrow>
          (case LoadScanner lib (external_plugin KindScanner (scfName sc) ext) h of
             (Inl err, h') \<Rightarrow> (Inl (WrapErr (''scanner '' @ scfName sc @ '' (external): %w'') err), h')
           | (Inr s, h') \<Rightarrow> select_scanners lib reg scs (out @ [s]) h')
      | None \<Rightarrow>
          (case scanner_Get (scfName sc) reg of
             None \<Rightarrow> (Inl (GoErr ''scanner %q is not registered (and no external command supplied)''
                        [scfName sc]), h)
           | Some s \<Rightarrow> select_scanners lib reg scs (out @ [s]) h))"

definition buildScanners ::
  "plugin_lib \<Rightarrow> config \<Rightarrow> host \<Rightarrow> (go_error + scanner list) \<times> host" where
  "buildScanners lib cfg h =
     (case register_each builtins scanner_NewRegistry of
        Inl err \<Rightarrow> (Inl err, h)
      | Inr reg \<Rightarrow>
          (case select_scanners lib reg (cfScanners cfg) [] h of
             (Inl err, h') \<Rightarrow> (Inl err, h')
           | (Inr out, h') \<Rightarrow>
               if out = [] then (Inl (GoErr ''no scanners enabled'' []), h') else (Inr out, h')))"

subsection \<open>Redactor and certificate store\<close>

definition config_placeholder :: "config \<Rightarrow> string" where
  "config_placeholder cfg =
     (case rcConfig (cfRedactor cfg) ''placeholder'' of Some (AnyString s) \<Rightarrow> s | _ \<Rightarrow> [])"

definition buildRedactor ::
  "plugin_lib \<Rightarrow> config \<Rightarrow> host \<Rightarrow> (go_error + redactor) \<times> host" where
  "buildRedactor lib cfg h =
     (case rcExternal (cfRedactor cfg) of
        Some ext \<Rightarrow>
          (case LoadRedactor lib (external_plugin KindRedactor (rcName (cfRedactor cfg)) ext) h of
             (Inl err, h') \<Rightarrow>
               (Inl (WrapErr (''redactor '' @ rcName (cfRedactor cfg) @ '' (external): %w'') err), h')
           | (Inr r, h') \<Rightarrow> (Inr r, h'))
      | None \<Rightarrow>
          (case redactor_Register (Some (mask_api (mask_New (config_placeholder cfg))))
                  redactor_NewRegistry of
             (Some err, reg) \<Rightarrow> (Inl err, h)
           | (None, reg) \<Rightarrow>
               (case redactor_Get (rcName (cfRedactor cfg)) reg of
                  None \<Rightarrow> (Inl (GoErr ''redactor %q is not registered (and no external command supplied)''
                             [rcName (cfRedactor cfg)]), h)
                | Some r \<Rightarrow> (Inr r, h))))"

definition resolvePaths ::
  "(go_error + string \<times> string) \<Rightarrow> string \<Rightarrow> string \<Rightarrow> go_error + string \<times> string" where
  "resolvePaths defaults certPath keyPath =
     (if certPath \<noteq> [] \<and> keyPath \<noteq> [] then Inr (certPath, keyPath)
      else case defaults of
        Inl err \<Rightarrow> Inl err
      | Inr (defCert, defKey) \<Rightarrow>
          Inr (if certPath = [] then defCert else certPath, if keyPath = [] then defKey else keyPath))"

definition buildCertStore ::
  "(go_error + string \<times> string) \<Rightarrow> (string \<Rightarrow> string \<Rightarrow> go_error + root) \<Rightarrow> (go_error + private_key) \<Rightarrow> config
    \<Rightarrow> go_error + store option" where
  "buildCertStore defaults loadRoot genKey cfg =
     (if \<not> tlMITM (cfTLS cfg) then Inr None
      else case resolvePaths defaults (caCertPath (tlCA (cfTLS cfg))) (caKeyPath (tlCA (cfTLS cfg))) of
        Inl err \<Rightarrow> Inl err
      | Inr (certPath, keyPath) \<Rightarrow>
          (case loadRoot certPath keyPath of
             Inl err \<Rightarrow> Inl (WrapErr (''%w'' @ [CHR 0x0A] @ ''hint: run `tg-proxy ca generate` to create one'') err)
           | Inr rt \<Rightarrow>
               let cacheSize = (if tlLeafCacheSize (cfTLS cfg) \<le> 0 then 1024
                                else tlLeafCacheSize (cfTLS cfg)) in
               (case NewStore genKey (Some rt) cacheSize (caOrganization (tlCA (cfTLS cfg))) of
                  Inl err \<Rightarrow> Inl err
                | Inr st \<Rightarrow> Inr (Some st))))"

subsection \<open>Lemmas\<close>

lemma register_each_all:
  "register_each ss reg =
    (case scanner_reg.register_all ss reg of (None, r) \<Rightarrow> Inr r | (Some e, r) \<Rightarrow> Inl e)"
  by (induction ss arbitrary: reg) (auto split: prod.splits option.splits)

lemma builtin_names: "map scName builtins = [''pii'', ''secrets'', ''sqli'', ''code'']"
  by (simp add: builtins_def pii_New_def secrets_New_def sqli_New_def code_New_def pii_Name_def
      secrets_Name_def sqli_Name_def code_Name_def)

lemma builtins_registered:
  obtains reg where "register_each builtins scanner_NewRegistry = Inr reg"
    "\<And>k. scanner_Get k reg = find (\<lambda>s. scName s = k) builtins"
proof -
  let ?r = "scanner_reg.register_all builtins scanner_NewRegistry"
  have fresh: "scName s \<noteq> [] \<and> scanner_Get (scName s) scanner_NewRegistry = None" if "s \<in> set builtins" for s
  proof -
    have "scName s \<in> set (map scName builtins)" using that by simp
    then show ?thesis
      unfolding builtin_names by (auto simp: scanner_reg.lookup_new)
  qed
  have "distinct (map scName builtins)"
    unfolding builtin_names by simp
  note all = scanner_reg.register_all_lookup [OF this fresh]
  have "fst ?r = None"
    using all by blast
  then have "register_each builtins scanner_NewRegistry = Inr (snd ?r)"
    by (auto simp: register_each_all split: prod.splits option.splits)
  moreover have "scanner_Get k (snd ?r) = find (\<lambda>s. scName s = k) builtins" for k
    using all [of k] by (simp add: scanner_reg.lookup_new split: option.splits)
  ultimately show ?thesis
    by (rule that)
qed


text \<open>The built-in scanner with a given name.\<close>

definition builtin :: "string \<Rightarrow> scanner option" where
  "builtin name = find (\<lambda>s. scName s = name) builtins"

lemma builtin_name: "builtin name = Some s \<Longrightarrow> scName s = name \<and> s \<in> set builtins"
  by (auto simp: builtin_def find_Some_iff)

lemma builtin_exists: "name \<in> set (map scName builtins) \<longleftrightarrow> builtin name \<noteq> None"
  by (auto simp: builtin_def find_None_iff)

lemma builtins_ok: "s \<in> set builtins \<Longrightarrow> scanner_ok s"
  using pii.scan_offsets secrets.scan_offsets sqli.scan_offsets code_sc.scan_offsets
  by (auto simp: builtins_def pii_New_def secrets_New_def sqli_New_def code_New_def scanner_ok_def
      offsets_ok_def)

lemma select_scanners_builtin:
  assumes "\<And>k. scanner_Get k reg = builtin k"
    and "\<And>sc. sc \<in> set scs \<Longrightarrow> scfEnabled sc \<Longrightarrow> scfExternal sc = None \<and> builtin (scfName sc) \<noteq> None"
  shows "select_scanners lib reg scs out h =
    (Inr (out @ map (\<lambda>sc. the (builtin (scfName sc))) (filter scfEnabled scs)), h)"
  using assms(2)
proof (induction scs arbitrary: out)
  case (Cons sc scs)
  show ?case
  proof (cases "scfEnabled sc")
    case True
    then obtain s where "scfExternal sc = None" "builtin (scfName sc) = Some s"
      using Cons.prems [of sc] by auto
    then show ?thesis
      using True Cons assms(1) by simp
  qed (use Cons in simp)
qed simp

lemma buildScanners_builtin:
  assumes "\<And>sc. sc \<in> set (cfScanners cfg) \<Longrightarrow> scfEnabled sc \<Longrightarrow>
      scfExternal sc = None \<and> builtin (scfName sc) \<noteq> None"
    and "EnabledScanners cfg \<noteq> []"
  shows "buildScanners lib cfg h =
    (Inr (map (\<lambda>sc. the (builtin (scfName sc))) (filter scfEnabled (cfScanners cfg))), h)"
proof -
  obtain reg where reg: "register_each builtins scanner_NewRegistry = Inr reg"
      "\<And>k. scanner_Get k reg = builtin k"
    using builtins_registered unfolding builtin_def by metis
  have "select_scanners lib reg (cfScanners cfg) [] h =
      (Inr (map (\<lambda>sc. the (builtin (scfName sc))) (filter scfEnabled (cfScanners cfg))), h)"
    using select_scanners_builtin [OF reg(2) assms(1), of "cfScanners cfg" lib "[]" h] by simp
  then show ?thesis
    using assms(2) reg(1) by (simp add: buildScanners_def EnabledScanners_def)
qed

subsection \<open>Properties\<close>

text \<open>
  A validated configuration whose enabled scanners are built in starts: \<open>buildScanners\<close>
  returns exactly the enabled scanners, in the order of the configuration, under the names it
  lists, and touches no plugin.
\<close>

lemma buildScanners_enabled:
  assumes "Validate uni cfg = None"
    and "\<And>sc. sc \<in> set (cfScanners cfg) \<Longrightarrow> scfEnabled sc \<Longrightarrow>
      scfExternal sc = None \<and> scfName sc \<in> {''pii'', ''secrets'', ''sqli'', ''code''}"
  shows "\<exists>scs. buildScanners lib cfg h = (Inr scs, h) \<and> map scName scs = EnabledScanners cfg \<and>
    set scs \<subseteq> set builtins"
proof -
  have known: "builtin (scfName sc) \<noteq> None" if "sc \<in> set (cfScanners cfg)" "scfEnabled sc" for sc
    using assms(2) [OF that] unfolding builtin_exists [symmetric] builtin_names by simp
  then have "buildScanners lib cfg h =
      (Inr (map (\<lambda>sc. the (builtin (scfName sc))) (filter scfEnabled (cfScanners cfg))), h)"
    using assms(2) Validate_accepts(14) [OF assms(1)] by (intro buildScanners_builtin) blast+
  moreover have "scName (the (builtin (scfName sc))) = scfName sc \<and>
      the (builtin (scfName sc)) \<in> set builtins"
    if "sc \<in> set (cfScanners cfg)" "scfEnabled sc" for sc
    using known [OF that] builtin_name by fastforce
  ultimately show ?thesis
    by (auto simp: EnabledScanners_def)
qed

text \<open>
  When validation has accepted a configuration with interception on, the default CA paths are
  never used: start-up depends on the two configured paths only.
\<close>

lemma certstore_ignores_defaults:
  assumes "Validate uni cfg = None" "tlMITM (cfTLS cfg)"
  shows "buildCertStore defaults loadRoot genKey cfg = buildCertStore defaults' loadRoot genKey cfg"
  using Validate_accepts(9,10) [OF assms(1,2)]
  by (simp add: buildCertStore_def resolvePaths_def)

definition mitm_config :: config where
  "mitm_config = Default\<lparr>cfTLS := (cfTLS Default)\<lparr>tlMITM := True, tlLeafCacheSize := 0,
     tlCA := \<lparr>caCertPath = ''c'', caKeyPath = ''k'', caOrganization = []\<rparr>\<rparr>\<rparr>"

text \<open>
  A configured \<open>leaf_cache_size\<close> of zero does not disable the cache: the store that
  start-up builds always has room for at least one certificate.
\<close>

lemma certstore_always_caches:
  assumes "buildCertStore defaults loadRoot genKey cfg = Inr (Some st)"
  shows "0 < capacity st \<and> store_ok st \<and> (tlLeafCacheSize (cfTLS cfg) \<le> 0 \<longrightarrow> capacity st = 1024)"
proof -
  obtain rt orgName where "NewStore genKey (Some rt)
      (if tlLeafCacheSize (cfTLS cfg) \<le> 0 then 1024 else tlLeafCacheSize (cfTLS cfg)) orgName = Inr st"
    using assms by (auto simp: buildCertStore_def Let_def split: if_splits sum.splits prod.splits)
  from NewStore_ok [OF this] show ?thesis by auto
qed

end
