(* ===== verification/Pem.thy ===== *)
theory Pem
  imports Base64
begin

text \<open>
  What the root CA files use of Go's \<open>encoding/pem\<close>: \<open>EncodeToMemory\<close> of a block without headers
  and \<open>Decode\<close> of the first block of a file, over the base64 decoder of theory \<open>Base64\<close>.  The round
  trip of the two is proved for every block.
\<close>

subsection \<open>Lines\<close>

definition is_blank_byte :: "byte \<Rightarrow> bool" where
  "is_blank_byte c \<longleftrightarrow> c = 32 \<or> c = 9"

definition TrimRight_blank :: "bytes \<Rightarrow> bytes" where
  "TrimRight_blank s = rev (dropWhile is_blank_byte (rev s))"

definition getLine :: "bytes \<Rightarrow> bytes \<times> bytes" where
  "getLine data =
     (let line = takeWhile (\<lambda>c. c \<noteq> 10) data; i = length line in
      if i = length data then (TrimRight_blank data, [])
      else (TrimRight_blank (if line \<noteq> [] \<and> last line = 13 then butlast line else line),
            drop (Suc i) data))"

fun bytes_Index :: "bytes \<Rightarrow> bytes \<Rightarrow> nat option" where
  "bytes_Index sep [] = (if sep = [] then Some 0 else None)"
| "bytes_Index sep (c # s) =
     (if take (length sep) (c # s) = sep then Some 0 else map_option Suc (bytes_Index sep s))"

definition bytes_Cut :: "bytes \<Rightarrow> bytes \<Rightarrow> (bytes \<times> bytes) option" where
  "bytes_Cut s sep = map_option (\<lambda>i. (take i s, drop (i + length sep) s)) (bytes_Index sep s)"

definition has_prefix :: "bytes \<Rightarrow> bytes \<Rightarrow> bool" where
  "has_prefix s p \<longleftrightarrow> take (length p) s = p"

definition has_suffix :: "bytes \<Rightarrow> bytes \<Rightarrow> bool" where
  "has_suffix s p \<longleftrightarrow> length p \<le> length s \<and> drop (length s - length p) s = p"

subsection \<open>Encoding\<close>

definition pemEndOfLine :: bytes where
  "pemEndOfLine = [45, 45, 45, 45, 45]"

text \<open>\<open>-----BEGIN\<close> and \<open>-----END\<close> with the following blank; the decoder expects a line break before.\<close>

definition pemBegin :: bytes where
  "pemBegin = [45, 45, 45, 45, 45, 66, 69, 71, 73, 78, 32]"

definition pemFinish :: bytes where
  "pemFinish = [45, 45, 45, 45, 45, 69, 78, 68, 32]"

record pem_block =
  pbType :: bytes
  pbHeaders :: "(bytes \<times> bytes) list"
  pbBytes :: bytes

function break_lines :: "bytes \<Rightarrow> bytes" where
  "break_lines s = (if s = [] then [] else take 64 s @ 10 # break_lines (drop 64 s))"
  by pat_completeness auto
termination
  by (relation "measure length") auto

declare break_lines.simps [simp del]

definition EncodeToMemory :: "bytes \<Rightarrow> bytes \<Rightarrow> bytes" where
  "EncodeToMemory typ data =
     pemBegin @ typ @ pemEndOfLine @ 10 # break_lines (b64_encode data) @
     pemFinish @ typ @ pemEndOfLine @ [10]"

subsection \<open>Decoding\<close>

definition pem_start :: "bytes \<Rightarrow> bytes option" where
  "pem_start rest =
     (if has_prefix rest pemBegin then Some (drop (length pemBegin) rest)
      else map_option snd (bytes_Cut rest (10 # pemBegin)))"

lemma getLine_shorter: "data \<noteq> [] \<Longrightarrow> length (snd (getLine data)) < length data"
  by (auto simp: getLine_def Let_def)

lemma getLine_le: "length (snd (getLine data)) \<le> length data"
  by (auto simp: getLine_def Let_def)

text \<open>\<open>bytes.TrimSpace\<close> for ASCII; header values are kept but nothing depends on them.\<close>

definition trim_bytes :: "bytes \<Rightarrow> bytes" where
  "trim_bytes s = (let sp = (\<lambda>c. c \<in> {9, 10, 11, 12, 13, 32}) in
     rev (dropWhile sp (rev (dropWhile sp s))))"

function pem_headers :: "(bytes \<times> bytes) list \<Rightarrow> bytes \<Rightarrow> ((bytes \<times> bytes) list \<times> bytes) option" where
  "pem_headers hs rest =
     (if rest = [] then None
      else case bytes_Cut (fst (getLine rest)) [58] of
             None \<Rightarrow> Some (hs, rest)
           | Some (key, val) \<Rightarrow> pem_headers ((trim_bytes key, trim_bytes val) # hs) (snd (getLine rest)))"
  by pat_completeness auto
termination
  by (relation "measure (\<lambda>(hs, rest). length rest)") (auto intro: getLine_shorter)

declare pem_headers.simps [simp del]

lemma pem_headers_le: "pem_headers hs rest = Some (hs', rest') \<Longrightarrow> length rest' \<le> length rest"
proof (induction hs rest rule: pem_headers.induct)
  case (1 hs rest)
  have "rest \<noteq> [] \<Longrightarrow> length rest' \<le> length rest"
    using 1 getLine_le [of rest] unfolding pem_headers.simps [of hs rest]
    by (fastforce split: option.splits)
  then show ?case
    using 1(2) by (cases "rest = []") (simp_all add: pem_headers.simps [of hs "[]"])
qed

text \<open>The data between the headers and the END line, if that line closes the block properly.\<close>

definition pem_body :: "bytes \<Rightarrow> (bytes \<times> bytes) list \<Rightarrow> bytes \<Rightarrow> bytes option" where
  "pem_body typ hs rest =
     (let found = (if hs = [] \<and> has_prefix rest pemFinish then Some (0, length pemFinish)
                   else map_option (\<lambda>i. (i, i + Suc (length pemFinish))) (bytes_Index (10 # pemFinish) rest)) in
      case found of
        None \<Rightarrow> None
      | Some (endIndex, endTrailerIndex) \<Rightarrow>
          let endTrailer = drop endTrailerIndex rest; n = length typ + length pemEndOfLine in
          if length endTrailer < n then None
          else if \<not> has_prefix (take n endTrailer) typ \<or> \<not> has_suffix (take n endTrailer) pemEndOfLine
          then None
          else if fst (getLine (drop n endTrailer)) \<noteq> [] then None
          else b64_DecodeString (filter (\<lambda>c. \<not> is_blank_byte c) (take endIndex rest)))"

lemma bytes_Index_le: "bytes_Index sep s = Some i \<Longrightarrow> i + length sep \<le> length s"
  by (induction sep s arbitrary: i rule: bytes_Index.induct)
    (auto split: if_splits dest: arg_cong [where f = length])

lemma pem_start_shorter: "pem_start rest = Some r \<Longrightarrow> length r < length rest"
  by (auto simp: pem_start_def has_prefix_def bytes_Cut_def pemBegin_def split: if_splits
      dest!: bytes_Index_le dest: arg_cong [where f = length])

function pem_Decode :: "bytes \<Rightarrow> pem_block option" where
  "pem_Decode rest =
     (case pem_start rest of
        None \<Rightarrow> None
      | Some r1 \<Rightarrow>
          let typeLine = fst (getLine r1); r2 = snd (getLine r1) in
          if \<not> has_suffix typeLine pemEndOfLine then pem_Decode r2
          else let typ = take (length typeLine - length pemEndOfLine) typeLine in
               case pem_headers [] r2 of
                 None \<Rightarrow> None
               | Some (hs, r3) \<Rightarrow>
                   (case pem_body typ hs r3 of
                      None \<Rightarrow> pem_Decode r3
                    | Some data \<Rightarrow> Some \<lparr>pbType = typ, pbHeaders = hs, pbBytes = data\<rparr>))"
  by pat_completeness auto
termination
proof (relation "measure length")
  show "wf (measure (length :: bytes \<Rightarrow> nat))" by simp
next
  fix rest r1 x xa
  assume "pem_start rest = Some r1" "xa = snd (getLine r1)"
  then show "(xa, rest) \<in> measure length"
    using pem_start_shorter getLine_le [of r1] by (fastforce dest: le_less_trans)
next
  fix rest r1 x xa xb x2 xc y
  assume "pem_start rest = Some r1" "xa = snd (getLine r1)" "pem_headers [] xa = Some x2" "(xc, y) = x2"
  then have "length y \<le> length xa" "length xa \<le> length r1" "length r1 < length rest"
    using pem_headers_le pem_start_shorter getLine_le by auto
  then show "(y, rest) \<in> measure length" by simp
qed

declare pem_Decode.simps [simp del]

subsection \<open>Round trip\<close>

lemma takeWhile_newline: "10 \<notin> set xs \<Longrightarrow> takeWhile (\<lambda>c. c \<noteq> 10) (xs @ 10 # ys) = xs"
  by (induction xs) auto

lemma getLine_newline:
  assumes "10 \<notin> set xs" "xs = [] \<or> last xs \<notin> {9, 13, 32}"
  shows "getLine (xs @ 10 # ys) = (xs, ys)"
proof -
  have "TrimRight_blank xs = xs"
    using assms(2) by (cases xs rule: rev_cases) (auto simp: TrimRight_blank_def is_blank_byte_def)
  then show ?thesis
    using assms by (auto simp: getLine_def Let_def takeWhile_newline)
qed

lemma has_prefix_append [simp]: "has_prefix (p @ s) p"
  by (simp add: has_prefix_def)

lemma has_suffix_append [simp]: "has_suffix (s @ p) p"
  by (simp add: has_suffix_def)

lemma bytes_Index_absent: "c \<notin> set s \<Longrightarrow> bytes_Index [c] s = None"
  by (induction s) auto

text \<open>A marker that starts with a line break and a dash is first found after text without dashes.\<close>

lemma bytes_Index_marker:
  "45 \<notin> set b \<Longrightarrow> bytes_Index (10 # 45 # m) (b @ 10 # 45 # m @ rest) = Some (length b)"
proof (induction b)
  case (Cons c b)
  then have "take (Suc (Suc (length m))) (c # b @ 10 # 45 # m @ rest) \<noteq> 10 # 45 # m"
    by (cases b) auto
  then show ?case
    using Cons by simp
qed simp

lemma break_lines_set: "set (break_lines s) \<subseteq> insert 10 (set s)"
proof (induction s rule: break_lines.induct)
  case (1 s)
  then show ?case
    using set_take_subset [of 64 s] set_drop_subset [of 64 s]
    by (cases "s = []") (auto simp: break_lines.simps [of s] break_lines.simps [of "[]"])
qed

lemma break_lines_filter: "filter (\<lambda>c. c \<noteq> 10 \<and> c \<noteq> 13) (break_lines s) = filter (\<lambda>c. c \<noteq> 10 \<and> c \<noteq> 13) s"
proof (induction s rule: break_lines.induct)
  case (1 s)
  show ?case
  proof (cases "s = []")
    case False
    then have "filter (\<lambda>c. c \<noteq> 10 \<and> c \<noteq> 13) (break_lines s) =
        filter (\<lambda>c. c \<noteq> 10 \<and> c \<noteq> 13) (take 64 s @ drop 64 s)"
      using 1 by (subst break_lines.simps) (simp del: append_take_drop_id)
    then show ?thesis by simp
  qed (simp add: break_lines.simps)
qed

lemma break_lines_ends:
  assumes "s \<noteq> []" obtains b where "break_lines s = b @ [10]"
proof -
  have "s \<noteq> [] \<Longrightarrow> break_lines s \<noteq> [] \<and> last (break_lines s) = 10" for s
  proof (induction s rule: break_lines.induct)
    case (1 s)
    then show ?case
      by (cases "drop 64 s = []")
        (subst (1 2) break_lines.simps, simp add: break_lines.simps [of "[]"])+
  qed
  then show ?thesis
    using assms that [of "butlast (break_lines s)"] by (metis append_butlast_last_id)
qed

lemma b64_text: "c \<in> set (b64_encode bs) \<Longrightarrow> c \<notin> {9, 10, 13, 32, 45, 58}"
proof -
  assume c: "c \<in> set (b64_encode bs)"
  obtain cs p where "b64_encode bs = cs @ replicate p 61" "list_all isBase64Char cs"
    using b64_encode_shape by blast
  then have "isBase64Char c \<or> c = 61"
    using c by (auto simp: list_all_iff split: if_splits)
  then show ?thesis
    by (auto simp: isBase64Char_def)
qed

lemma break_lines_first:
  assumes "bs \<noteq> []"
  obtains xs ys where "break_lines (b64_encode bs) = xs @ 10 # ys" "xs \<noteq> []" "set xs \<subseteq> set (b64_encode bs)"
proof -
  have "b64_encode bs \<noteq> []"
    using assms by (cases bs rule: b64_encode.cases) simp_all
  then show ?thesis
    using that [of "take 64 (b64_encode bs)"] set_take_subset [of 64 "b64_encode bs"]
    by (simp add: break_lines.simps [of "b64_encode bs"])
qed

text \<open>The line after BEGIN has no colon, so there are no headers.\<close>

lemma pem_headers_encoded:
  assumes "10 \<notin> set typ" "58 \<notin> set typ"
  shows "pem_headers [] (break_lines (b64_encode data) @ pemFinish @ typ @ pemEndOfLine @ [10]) =
    Some ([], break_lines (b64_encode data) @ pemFinish @ typ @ pemEndOfLine @ [10])"
proof (cases "data = []")
  case True
  have "getLine ((pemFinish @ typ @ pemEndOfLine) @ 10 # []) = (pemFinish @ typ @ pemEndOfLine, [])"
    using assms(1) by (intro getLine_newline) (auto simp: pemFinish_def pemEndOfLine_def)
  moreover have "58 \<notin> set (pemFinish @ typ @ pemEndOfLine)"
    using assms(2) by (auto simp: pemFinish_def pemEndOfLine_def)
  ultimately show ?thesis
    using True by (simp add: pem_headers.simps bytes_Cut_def bytes_Index_absent break_lines.simps)
next
  case False
  then obtain xs ys where x: "break_lines (b64_encode data) = xs @ 10 # ys" "xs \<noteq> []"
      "set xs \<subseteq> set (b64_encode data)"
    by (rule break_lines_first)
  have "10 \<notin> set xs" "58 \<notin> set xs" "last xs \<notin> {9, 13, 32}"
    using x b64_text [of _ data] last_in_set [OF x(2)] by blast+
  then have "fst (getLine (xs @ 10 # ys @ pemFinish @ typ @ pemEndOfLine @ [10])) = xs"
    by (simp add: getLine_newline)
  then show ?thesis
    using x \<open>58 \<notin> set xs\<close> by (simp add: pem_headers.simps bytes_Cut_def bytes_Index_absent)
qed

lemma pem_trailer:
  "length (typ @ pemEndOfLine @ [10]) \<ge> length typ + length pemEndOfLine"
  "has_prefix (take (length typ + length pemEndOfLine) (typ @ pemEndOfLine @ [10])) typ"
  "has_suffix (take (length typ + length pemEndOfLine) (typ @ pemEndOfLine @ [10])) pemEndOfLine"
  "fst (getLine (drop (length typ + length pemEndOfLine) (typ @ pemEndOfLine @ [10]))) = []"
  using getLine_newline [of "[]" "[]"] by simp_all

lemma b64_decode_lines:
  assumes "set b \<subseteq> insert 10 (set (b64_encode data))"
    and "filter (\<lambda>c. c \<noteq> 10 \<and> c \<noteq> 13) b = b64_encode data"
  shows "b64_DecodeString (filter (\<lambda>c. \<not> is_blank_byte c) b) = Some data"
proof -
  have "filter (\<lambda>c. \<not> is_blank_byte c) b = b"
    using assms(1) b64_text [of 9 data] b64_text [of 32 data]
    by (auto simp: filter_id_conv is_blank_byte_def)
  then show ?thesis
    using assms(2) b64_Decode_encode [of data] b64_encode_no_break [of data]
    by (simp add: b64_DecodeString_def)
qed

lemma pem_body_encoded:
  "pem_body typ [] (break_lines (b64_encode data) @ pemFinish @ typ @ pemEndOfLine @ [10]) = Some data"
proof (cases "data = []")
  case True
  then show ?thesis
    using pem_trailer [of "typ"] b64_Decode_encode [of "[]"]
    by (simp add: pem_body_def break_lines.simps Let_def)
next
  case False
  obtain b where b: "break_lines (b64_encode data) = b @ [10]"
    using False by (cases data rule: b64_encode.cases) (auto intro: break_lines_ends)
  have sub: "set b \<subseteq> insert 10 (set (b64_encode data))"
    using break_lines_set [of "b64_encode data"] unfolding b by auto
  then have dash: "45 \<notin> set b"
    using b64_text [of 45 data] by auto
  have "filter (\<lambda>c. c \<noteq> 10 \<and> c \<noteq> 13) b = b64_encode data"
    using break_lines_filter [of "b64_encode data"] b64_encode_no_break [of data] unfolding b by simp
  note dec = b64_decode_lines [OF sub this]
  have idx: "bytes_Index (10 # pemFinish) (b @ 10 # pemFinish @ typ @ pemEndOfLine @ [10]) = Some (length b)"
    using bytes_Index_marker [OF dash, of "tl pemFinish" "typ @ pemEndOfLine @ [10]"]
    by (simp add: pemFinish_def)
  have no: "\<not> has_prefix (b @ 10 # pemFinish @ typ @ pemEndOfLine @ [10]) pemFinish"
    using dash by (cases b) (auto simp: has_prefix_def pemFinish_def)
  show ?thesis
    using pem_trailer [of "typ"] dec idx no
    by (simp add: pem_body_def b Let_def)
qed

lemma pem_Decode_Encode:
  assumes "10 \<notin> set typ" "58 \<notin> set typ"
  shows "pem_Decode (EncodeToMemory typ data) = Some \<lparr>pbType = typ, pbHeaders = [], pbBytes = data\<rparr>"
proof -
  let ?r2 = "break_lines (b64_encode data) @ pemFinish @ typ @ pemEndOfLine @ [10]"
  have line: "getLine ((typ @ pemEndOfLine) @ 10 # ?r2) = (typ @ pemEndOfLine, ?r2)"
    using assms(1) by (intro getLine_newline) (auto simp: pemEndOfLine_def)
  have "pem_start (EncodeToMemory typ data) = Some ((typ @ pemEndOfLine) @ 10 # ?r2)"
    by (simp add: pem_start_def EncodeToMemory_def)
  then show ?thesis
    using line pem_headers_encoded [OF assms, of data] pem_body_encoded [of "typ" data]
    by (simp add: pem_Decode.simps [of "EncodeToMemory typ data"] Let_def)
qed

end
