(* ===== verification/Root_CA.thy ===== *)
theory Root_CA
  imports Cert_Store Pem Go_Os
begin

text \<open>
  The root CA, \<open>src/internal/ca/ca.go\<close>: generating a root certificate, writing it and its key to
  disk as PEM, and reading them back.  The file system is a state that is passed on; key generation,
  the X.509 and PKCS#8 codecs, the hash, the random source and the clock are parameters, gathered in
  a record.
\<close>

unbundle bit_operations_syntax

subsection \<open>Generation\<close>

record root_template =
  roSerial :: int
  roCommonName :: string
  roOrganization :: "string list"
  roNotBefore :: int
  roNotAfter :: int
  roKeyUsage :: int
  roBasicConstraintsValid :: bool
  roIsCA :: bool
  roMaxPathLen :: int
  roMaxPathLenZero :: bool
  roSubjectKeyId :: bytes

datatype parsed_key = SignerKey private_key | OtherKey

record ca_crypto =
  cyGenerate :: "go_error + private_key"
  cyRand :: "int \<Rightarrow> go_error + int"
  cyMarshalPublic :: "private_key \<Rightarrow> go_error + bytes"
  cySha1 :: "bytes \<Rightarrow> bytes"
  cyNow1 :: int
  cyNow2 :: int
  cyCreate :: "root_template \<Rightarrow> private_key \<Rightarrow> go_error + bytes"
  cyParse :: "bytes \<Rightarrow> go_error + x509"
  cyMarshalKey :: "private_key \<Rightarrow> go_error + bytes"
  cyParseKey :: "bytes \<Rightarrow> go_error + parsed_key"

definition rootValidity :: int where
  "rootValidity = 10 * 365 * 24 * hour"

definition KeyUsageCertSign :: int where "KeyUsageCertSign = 32"
definition KeyUsageCRLSign :: int where "KeyUsageCRLSign = 64"

definition subjectKeyID :: "ca_crypto \<Rightarrow> private_key \<Rightarrow> go_error + bytes" where
  "subjectKeyID cy priv =
     (case cyMarshalPublic cy priv of
        Inl err \<Rightarrow> Inl (WrapErr ''ca: marshal public key: %w'' err)
      | Inr raw \<Rightarrow> Inr (cySha1 cy raw))"

definition root_for :: "ca_crypto \<Rightarrow> string \<Rightarrow> int \<Rightarrow> bytes \<Rightarrow> root_template" where
  "root_for cy orgName serial skid =
     \<lparr>roSerial = serial, roCommonName = orgName, roOrganization = [orgName],
      roNotBefore = cyNow1 cy - hour, roNotAfter = cyNow2 cy + rootValidity,
      roKeyUsage = KeyUsageCertSign OR KeyUsageCRLSign OR KeyUsageDigitalSignature,
      roBasicConstraintsValid = True, roIsCA = True, roMaxPathLen = 0, roMaxPathLenZero = True,
      roSubjectKeyId = skid\<rparr>"

definition NewRoot :: "ca_crypto \<Rightarrow> string \<Rightarrow> go_error + root" where
  "NewRoot cy orgName =
     (let orgName' = (if orgName = [] then ''tg-proxy CA'' else orgName) in
      case cyGenerate cy of
        Inl err \<Rightarrow> Inl (WrapErr ''ca: generate key: %w'' err)
      | Inr priv \<Rightarrow>
          (case randomSerial (cyRand cy) of
             Inl err \<Rightarrow> Inl err
           | Inr serial \<Rightarrow>
               (case subjectKeyID cy priv of
                  Inl err \<Rightarrow> Inl err
                | Inr skid \<Rightarrow>
                    (case cyCreate cy (root_for cy orgName' serial skid) priv of
                       Inl err \<Rightarrow> Inl (WrapErr ''ca: create root cert: %w'' err)
                     | Inr derBytes \<Rightarrow>
                         (case cyParse cy derBytes of
                            Inl err \<Rightarrow> Inl (WrapErr ''ca: parse generated cert: %w'' err)
                          | Inr cert \<Rightarrow> Inr \<lparr>rtCert = Some cert, rtKey = Some priv\<rparr>)))))"

subsection \<open>Saving\<close>

definition certificate_type :: bytes where
  "certificate_type = str ''CERTIFICATE''"

definition private_key_type :: bytes where
  "private_key_type = str ''PRIVATE KEY''"

text \<open>The modes 0700, 0644 and 0600.\<close>

definition dir_mode :: file_mode where "dir_mode = 448"
definition cert_mode :: file_mode where "cert_mode = 420"
definition key_mode :: file_mode where "key_mode = 384"

definition write_pair ::
  "os_env \<Rightarrow> ca_crypto \<Rightarrow> x509 \<Rightarrow> private_key \<Rightarrow> string \<Rightarrow> string \<Rightarrow> file_system
    \<Rightarrow> go_error option \<times> file_system" where
  "write_pair env cy cert key certPath keyPath fs =
     (case WriteFile env certPath (EncodeToMemory certificate_type (xRaw cert)) cert_mode fs of
        (Some err, fs') \<Rightarrow> (Some (WrapErr ''ca: write cert: %w'' err), fs')
      | (None, fs') \<Rightarrow>
          (case cyMarshalKey cy key of
             Inl err \<Rightarrow> (Some (WrapErr ''ca: marshal key: %w'' err), fs')
           | Inr keyBytes \<Rightarrow>
               (case WriteFile env keyPath (EncodeToMemory private_key_type keyBytes) key_mode fs' of
                  (Some err, fs'') \<Rightarrow> (Some (WrapErr ''ca: write key: %w'' err), fs'')
                | (None, fs'') \<Rightarrow> (None, fs''))))"

text \<open>The guard on nil: the root, its certificate and its key must all be there.\<close>

definition populated :: "root option \<Rightarrow> (x509 \<times> private_key) option" where
  "populated r =
     (case r of None \<Rightarrow> None
      | Some rt \<Rightarrow> (case rtCert rt of None \<Rightarrow> None
                    | Some cert \<Rightarrow> (case rtKey rt of None \<Rightarrow> None | Some key \<Rightarrow> Some (cert, key))))"

definition SaveRoot ::
  "os_env \<Rightarrow> ca_crypto \<Rightarrow> root option \<Rightarrow> string \<Rightarrow> string \<Rightarrow> file_system
    \<Rightarrow> go_error option \<times> file_system" where
  "SaveRoot env cy r certPath keyPath fs =
     (case populated r of
        None \<Rightarrow> (Some (GoErr ''ca: root is incomplete'' []), fs)
      | Some (cert, key) \<Rightarrow>
          (case MkdirAll env (filepath_Dir certPath) dir_mode fs of
             (Some err, fs') \<Rightarrow> (Some (WrapErr ''ca: mkdir cert: %w'' err), fs')
           | (None, fs') \<Rightarrow>
               (case MkdirAll env (filepath_Dir keyPath) dir_mode fs' of
                  (Some err, fs'') \<Rightarrow> (Some (WrapErr ''ca: mkdir key: %w'' err), fs'')
                | (None, fs'') \<Rightarrow> write_pair env cy cert key certPath keyPath fs'')))"

subsection \<open>Loading\<close>

definition loadCertPEM :: "os_env \<Rightarrow> ca_crypto \<Rightarrow> string \<Rightarrow> file_system \<Rightarrow> go_error + x509" where
  "loadCertPEM env cy path fs =
     (case ReadFile env path fs of
        Inl err \<Rightarrow> Inl (WrapErr ''ca: read cert: %w'' err)
      | Inr pemBytes \<Rightarrow>
          (case pem_Decode pemBytes of
             None \<Rightarrow> Inl (GoErr ''ca: %s does not contain a CERTIFICATE PEM block'' [path])
           | Some block \<Rightarrow>
               if pbType block \<noteq> certificate_type
               then Inl (GoErr ''ca: %s does not contain a CERTIFICATE PEM block'' [path])
               else cyParse cy (pbBytes block)))"

definition loadKeyPEM :: "os_env \<Rightarrow> ca_crypto \<Rightarrow> string \<Rightarrow> file_system \<Rightarrow> go_error + private_key" where
  "loadKeyPEM env cy path fs =
     (case ReadFile env path fs of
        Inl err \<Rightarrow> Inl (WrapErr ''ca: read key: %w'' err)
      | Inr pemBytes \<Rightarrow>
          (case pem_Decode pemBytes of
             None \<Rightarrow> Inl (GoErr ''ca: %s does not contain a PRIVATE KEY PEM block'' [path])
           | Some block \<Rightarrow>
               if pbType block \<noteq> private_key_type
               then Inl (GoErr ''ca: %s does not contain a PRIVATE KEY PEM block'' [path])
               else (case cyParseKey cy (pbBytes block) of
                       Inl err \<Rightarrow> Inl (WrapErr ''ca: parse key: %w'' err)
                     | Inr (SignerKey key) \<Rightarrow> Inr key
                     | Inr OtherKey \<Rightarrow>
                         Inl (GoErr ''ca: private key does not implement crypto.Signer'' []))))"

definition LoadRoot ::
  "os_env \<Rightarrow> ca_crypto \<Rightarrow> string \<Rightarrow> string \<Rightarrow> file_system \<Rightarrow> go_error + root" where
  "LoadRoot env cy certPath keyPath fs =
     (case loadCertPEM env cy certPath fs of
        Inl err \<Rightarrow> Inl err
      | Inr cert \<Rightarrow>
          (case loadKeyPEM env cy keyPath fs of
             Inl err \<Rightarrow> Inl err
           | Inr key \<Rightarrow> Inr \<lparr>rtCert = Some cert, rtKey = Some key\<rparr>))"

subsection \<open>Files that hold a certificate or a key\<close>

text \<open>The file at a path holds the PEM form of the certificate, with some mode.\<close>

definition holds_cert :: "file_system \<Rightarrow> string \<Rightarrow> x509 \<Rightarrow> bool" where
  "holds_cert fs p cert \<longleftrightarrow>
     (case fs (Clean p) of
        Some (FileNode m d) \<Rightarrow> d = EncodeToMemory certificate_type (xRaw cert) | _ \<Rightarrow> False)"

definition holds_key :: "ca_crypto \<Rightarrow> file_system \<Rightarrow> string \<Rightarrow> private_key \<Rightarrow> bool" where
  "holds_key cy fs p key \<longleftrightarrow>
     (case (fs (Clean p), cyMarshalKey cy key) of
        (Some (FileNode m d), Inr kb) \<Rightarrow> d = EncodeToMemory private_key_type kb | _ \<Rightarrow> False)"

text \<open>What the standard library documents of its codecs: parsing undoes marshalling.\<close>

definition cert_parses :: "ca_crypto \<Rightarrow> x509 \<Rightarrow> bool" where
  "cert_parses cy cert \<longleftrightarrow> cyParse cy (xRaw cert) = Inr cert"

definition key_parses :: "ca_crypto \<Rightarrow> private_key \<Rightarrow> bool" where
  "key_parses cy key \<longleftrightarrow>
     (case cyMarshalKey cy key of Inl err \<Rightarrow> True | Inr kb \<Rightarrow> cyParseKey cy kb = Inr (SignerKey key))"

lemma types_plain:
  "10 \<notin> set certificate_type" "58 \<notin> set certificate_type"
  "10 \<notin> set private_key_type" "58 \<notin> set private_key_type"
  by (simp_all add: certificate_type_def private_key_type_def str_def)

lemma load_cert:
  assumes "holds_cert fs p cert" "cert_parses cy cert" "osFault env (OpenRead p) = None"
  shows "loadCertPEM env cy p fs = Inr cert"
  using assms pem_Decode_Encode [OF types_plain(1,2)]
  by (auto simp: holds_cert_def cert_parses_def loadCertPEM_def ReadFile_def split: option.splits node.splits)

lemma load_key:
  assumes "holds_key cy fs p key" "key_parses cy key" "osFault env (OpenRead p) = None"
  shows "loadKeyPEM env cy p fs = Inr key"
  using assms pem_Decode_Encode [OF types_plain(3,4)]
  by (auto simp: holds_key_def key_parses_def loadKeyPEM_def ReadFile_def
      split: option.splits node.splits sum.splits)

lemma load_pair:
  assumes "holds_cert fs cp cert" "cert_parses cy cert" "osFault env (OpenRead cp) = None"
    and "holds_key cy fs kp key" "key_parses cy key" "osFault env (OpenRead kp) = None"
  shows "LoadRoot env cy cp kp fs = Inr \<lparr>rtCert = Some cert, rtKey = Some key\<rparr>"
  using load_cert [OF assms(1-3)] load_key [OF assms(4-6)] by (simp add: LoadRoot_def)

lemma populated_Some [simp]: "populated (Some \<lparr>rtCert = Some cert, rtKey = Some key\<rparr>) = Some (cert, key)"
  by (simp add: populated_def)

text \<open>A pair written without an error: both files, at two paths that name different nodes.\<close>

lemma write_pair_done:
  assumes "write_pair env cy cert key cp kp fs = (None, fs')" "Clean cp \<noteq> Clean kp"
  shows "holds_cert fs' cp cert \<and> holds_key cy fs' kp key"
proof -
  obtain fs1 kb where w: "WriteFile env cp (EncodeToMemory certificate_type (xRaw cert)) cert_mode fs = (None, fs1)"
      "cyMarshalKey cy key = Inr kb"
      "WriteFile env kp (EncodeToMemory private_key_type kb) key_mode fs1 = (None, fs')"
    using assms(1) by (auto simp: write_pair_def split: prod.splits option.splits sum.splits)
  show ?thesis
    using WriteFile_done [OF w(1)] WriteFile_done [OF w(3)] w(2) assms(2)
    by (auto simp: holds_cert_def holds_key_def)
qed

lemma SaveRoot_writes:
  assumes "SaveRoot env cy (Some \<lparr>rtCert = Some cert, rtKey = Some key\<rparr>) cp kp fs = (None, fs')"
  shows "\<exists>fs2. write_pair env cy cert key cp kp fs2 = (None, fs')
    \<and> (\<forall>q n. fs q = Some n \<longrightarrow> fs2 q = Some n)
    \<and> (\<forall>q. fs q = None \<longrightarrow> fs2 q = None \<or> (\<exists>n. fs2 q = Some (DirNode n)))"
proof -
  obtain fs1 fs2 where m: "MkdirAll env (filepath_Dir cp) dir_mode fs = (None, fs1)"
      "MkdirAll env (filepath_Dir kp) dir_mode fs1 = (None, fs2)" "write_pair env cy cert key cp kp fs2 = (None, fs')"
    using assms by (auto simp: SaveRoot_def split: prod.splits option.splits)
  have "fs2 q = Some n" if "fs q = Some n" for q n
    using MkdirAll_keeps [of fs q n env "filepath_Dir cp" dir_mode] that
      MkdirAll_keeps [of fs1 q n env "filepath_Dir kp" dir_mode] m by simp
  moreover have "fs2 q = None \<or> (\<exists>n. fs2 q = Some (DirNode n))" if "fs q = None" for q
    using MkdirAll_new [of fs q env "filepath_Dir cp" dir_mode] that m
      MkdirAll_new [of fs1 q env "filepath_Dir kp" dir_mode]
      MkdirAll_keeps [of fs1 q _ env "filepath_Dir kp" dir_mode] by fastforce
  ultimately show ?thesis
    using m(3) by blast
qed

lemma MkdirAll_existing:
  assumes "osFault env (StatFile p) = None" "is_dir fs p"
  shows "MkdirAll env p perm fs = (None, fs)"
  using assms
  by (subst MkdirAll.simps) (auto simp: os_Stat_def is_dir_def split: option.splits node.splits)

lemma WriteFile_creates:
  assumes "quiet env" "fs (Clean p) = None" "is_dir fs (filepath_Dir (Clean p))"
    "Clean (filepath_Dir (Clean p)) = filepath_Dir (Clean p)"
  shows "WriteFile env p data perm fs = (None, fs(Clean p \<mapsto> FileNode (perm AND NOT (osUmask env)) data))"
  using assms by (auto simp: WriteFile_def open_trunc_def quiet_def is_dir_def split: option.splits node.splits)

lemma Clean_Dir [simp]: "Clean (filepath_Dir p) = filepath_Dir p"
  by (simp add: filepath_Dir_def)

text \<open>Saving into an existing directory without a disturbance creates both files.\<close>

lemma SaveRoot_creates:
  assumes "quiet env" "cyMarshalKey cy key = Inr kb"
    and "Clean cp = cp" "Clean kp = kp" "cp \<noteq> kp" "fs cp = None" "fs kp = None"
    and "is_dir fs (filepath_Dir cp)" "is_dir fs (filepath_Dir kp)"
  shows "SaveRoot env cy (Some \<lparr>rtCert = Some cert, rtKey = Some key\<rparr>) cp kp fs =
    (None, fs(cp \<mapsto> FileNode (cert_mode AND NOT (osUmask env)) (EncodeToMemory certificate_type (xRaw cert)),
              kp \<mapsto> FileNode (key_mode AND NOT (osUmask env)) (EncodeToMemory private_key_type kb)))"
proof -
  have mk: "MkdirAll env (filepath_Dir p) dir_mode fs = (None, fs)" if "is_dir fs (filepath_Dir p)" for p
    using that assms(1) by (simp add: MkdirAll_existing quiet_def)
  let ?fs1 = "fs(cp \<mapsto> FileNode (cert_mode AND NOT (osUmask env)) (EncodeToMemory certificate_type (xRaw cert)))"
  have c: "WriteFile env cp (EncodeToMemory certificate_type (xRaw cert)) cert_mode fs = (None, ?fs1)"
    using assms WriteFile_creates [of env fs cp] by simp
  have "filepath_Dir kp \<noteq> cp"
    using assms(6,9) by (auto simp: is_dir_def)
  then have "is_dir ?fs1 (filepath_Dir kp)"
    using assms(9) by (simp add: is_dir_def)
  then have k: "WriteFile env kp (EncodeToMemory private_key_type kb) key_mode ?fs1 =
      (None, ?fs1(kp \<mapsto> FileNode (key_mode AND NOT (osUmask env)) (EncodeToMemory private_key_type kb)))"
    using assms WriteFile_creates [of env ?fs1 kp] by simp
  show ?thesis
    using mk [OF assms(8)] mk [OF assms(9)] c k assms(2) by (simp add: SaveRoot_def write_pair_def)
qed

subsection \<open>Properties\<close>

text \<open>
  C22: A root that \<open>SaveRoot\<close> has written is what \<open>LoadRoot\<close> reads back, certificate and key, whatever
  was in the file system before, provided the two paths name different files and parsing a marshalled
  certificate or key gives it back.
\<close>

theorem root_save_load:
  assumes "SaveRoot env cy (Some \<lparr>rtCert = Some cert, rtKey = Some key\<rparr>) cp kp fs = (None, fs')"
    and "Clean cp \<noteq> Clean kp" "cert_parses cy cert" "key_parses cy key"
    and "osFault env' (OpenRead cp) = None" "osFault env' (OpenRead kp) = None"
  shows "LoadRoot env' cy cp kp fs' = Inr \<lparr>rtCert = Some cert, rtKey = Some key\<rparr>"
proof -
  obtain fs2 where "write_pair env cy cert key cp kp fs2 = (None, fs')"
    using SaveRoot_writes [OF assms(1)] by blast
  then have "holds_cert fs' cp cert \<and> holds_key cy fs' kp key"
    using assms(2) by (rule write_pair_done)
  then show ?thesis
    using assms(3-6) by (intro load_pair) simp_all
qed

text \<open>A toy codec that is its own inverse, a quiet environment with umask 022, and an empty home.\<close>

definition toy_crypto :: ca_crypto where
  "toy_crypto = \<lparr>cyGenerate = Inr [7], cyRand = (\<lambda>m. Inr 1), cyMarshalPublic = (\<lambda>k. Inr k),
     cySha1 = id, cyNow1 = 0, cyNow2 = 0, cyCreate = (\<lambda>t k. Inr [9]),
     cyParse = (\<lambda>der. Inr \<lparr>xRaw = der, xCommonName = ''tg'', xDNSNames = [], xIPAddresses = [],
       xNotBefore = 0, xNotAfter = 0, xPublicKey = []\<rparr>),
     cyMarshalKey = (\<lambda>k. Inr k), cyParseKey = (\<lambda>b. Inr (SignerKey b))\<rparr>"

definition toy_cert :: "byte \<Rightarrow> x509" where
  "toy_cert b = \<lparr>xRaw = [b], xCommonName = ''tg'', xDNSNames = [], xIPAddresses = [],
     xNotBefore = 0, xNotAfter = 0, xPublicKey = []\<rparr>"

definition quiet_env :: os_env where
  "quiet_env = \<lparr>osUmask = 18, osFault = (\<lambda>c. None), osShort = (\<lambda>p. 0)\<rparr>"

definition toy_fs :: file_system where
  "toy_fs = [''.'' \<mapsto> DirNode 493]"

lemma toy_paths: "Clean ''c'' = ''c''" "Clean ''k'' = ''k''" "filepath_Dir ''c'' = ''.''" "filepath_Dir ''k'' = ''.''" "Clean ''.'' = ''.''"
  by code_simp+

lemma toy_parses: "cert_parses toy_crypto (toy_cert b)" "key_parses toy_crypto key"
  by (simp_all add: cert_parses_def key_parses_def toy_crypto_def toy_cert_def)

lemma toy_saves:
  "\<exists>fs'. SaveRoot quiet_env toy_crypto (Some \<lparr>rtCert = Some (toy_cert 9), rtKey = Some [7]\<rparr>) ''c'' ''k'' toy_fs = (None, fs')"
  using SaveRoot_creates [of quiet_env toy_crypto "[7]" "[7]" "''c''" "''k''" toy_fs "toy_cert 9"]
  by (simp add: quiet_def quiet_env_def toy_crypto_def toy_paths toy_fs_def is_dir_def)

theorem root_save_load_witness:
  "\<exists>fs'. SaveRoot quiet_env toy_crypto (Some \<lparr>rtCert = Some (toy_cert 9), rtKey = Some [7]\<rparr>) ''c'' ''k'' toy_fs = (None, fs')
    \<and> LoadRoot quiet_env toy_crypto ''c'' ''k'' fs' = Inr \<lparr>rtCert = Some (toy_cert 9), rtKey = Some [7]\<rparr>"
proof -
  obtain fs' where s: "SaveRoot quiet_env toy_crypto (Some \<lparr>rtCert = Some (toy_cert 9), rtKey = Some [7]\<rparr>) ''c'' ''k'' toy_fs = (None, fs')"
    using toy_saves by blast
  then have "LoadRoot quiet_env toy_crypto ''c'' ''k'' fs' = Inr \<lparr>rtCert = Some (toy_cert 9), rtKey = Some [7]\<rparr>"
    by (rule root_save_load) (simp_all add: toy_paths toy_parses quiet_env_def)
  with s show ?thesis by blast
qed

text \<open>
  C39: The mode of the private key file.  When \<open>SaveRoot\<close> creates the file its mode is 0600 less the
  umask; when the file is already there, the new key is written into it and its old mode stays,
  readable by others if it was before.
\<close>

theorem key_file_mode:
  assumes "SaveRoot env cy (Some \<lparr>rtCert = Some cert, rtKey = Some key\<rparr>) cp kp fs = (None, fs')"
    and "Clean cp \<noteq> Clean kp"
  shows "holds_key cy fs' kp key \<and>
    (\<exists>d. fs' (Clean kp) = Some (FileNode (case fs (Clean kp) of
        Some (FileNode m old) \<Rightarrow> m | _ \<Rightarrow> key_mode AND NOT (osUmask env)) d))"
proof -
  obtain fs2 where w: "write_pair env cy cert key cp kp fs2 = (None, fs')"
      and keeps: "\<forall>q n. fs q = Some n \<longrightarrow> fs2 q = Some n"
      and new: "\<forall>q. fs q = None \<longrightarrow> fs2 q = None \<or> (\<exists>n. fs2 q = Some (DirNode n))"
    using SaveRoot_writes [OF assms(1)] by blast
  obtain fs3 kb where w3: "WriteFile env cp (EncodeToMemory certificate_type (xRaw cert)) cert_mode fs2 = (None, fs3)"
      "WriteFile env kp (EncodeToMemory private_key_type kb) key_mode fs3 = (None, fs')"
    using w by (auto simp: write_pair_def split: prod.splits option.splits sum.splits)
  have "fs3 (Clean kp) = fs2 (Clean kp)"
    using WriteFile_elsewhere [of "Clean kp" cp env _ cert_mode fs2] w3(1) assms(2) by (metis snd_conv)
  then have "\<exists>d. fs' (Clean kp) = Some (FileNode (case fs (Clean kp) of
      Some (FileNode m old) \<Rightarrow> m | _ \<Rightarrow> key_mode AND NOT (osUmask env)) d)"
    using WriteFile_done [OF w3(2)] keeps [rule_format, of "Clean kp"] new [rule_format, of "Clean kp"]
    by (auto split: option.splits node.splits)
  then show ?thesis
    using write_pair_done [OF w assms(2)] by blast
qed

definition shared_fs :: file_system where
  "shared_fs = [''.'' \<mapsto> DirNode 493, ''k'' \<mapsto> FileNode 420 []]"

lemma shared_saves:
  "\<exists>fs'. SaveRoot quiet_env toy_crypto (Some \<lparr>rtCert = Some (toy_cert 9), rtKey = Some [7]\<rparr>) ''c'' ''k'' shared_fs = (None, fs')"
proof -
  have "MkdirAll quiet_env ''.'' dir_mode shared_fs = (None, shared_fs)"
    by (simp add: MkdirAll_existing quiet_env_def is_dir_def toy_paths shared_fs_def)
  moreover have "WriteFile quiet_env ''c'' d perm shared_fs =
      (None, shared_fs(''c'' \<mapsto> FileNode (perm AND NOT 18) d))" for d perm
    using WriteFile_creates [of quiet_env shared_fs "''c''"]
    by (simp add: toy_paths quiet_def quiet_env_def is_dir_def) (simp add: shared_fs_def toy_paths)
  moreover have "WriteFile quiet_env ''k'' d perm (shared_fs(''c'' \<mapsto> n)) =
      (None, shared_fs(''c'' \<mapsto> n, ''k'' \<mapsto> FileNode 420 d))" for d perm n
    by (simp add: WriteFile_def open_trunc_def toy_paths quiet_env_def shared_fs_def)
  ultimately show ?thesis
    by (simp add: SaveRoot_def write_pair_def toy_paths) (simp add: toy_crypto_def)
qed

theorem key_file_mode_witness:
  "\<exists>fs' d. SaveRoot quiet_env toy_crypto (Some \<lparr>rtCert = Some (toy_cert 9), rtKey = Some [7]\<rparr>) ''c'' ''k'' shared_fs = (None, fs')
    \<and> fs' ''k'' = Some (FileNode 420 d) \<and> holds_key toy_crypto fs' ''k'' [7]"
proof -
  obtain fs' where s: "SaveRoot quiet_env toy_crypto (Some \<lparr>rtCert = Some (toy_cert 9), rtKey = Some [7]\<rparr>) ''c'' ''k'' shared_fs = (None, fs')"
    using shared_saves by blast
  from key_file_mode [OF this] show ?thesis
    using s by (auto simp: toy_paths shared_fs_def)
qed

text \<open>
  C40: A save that fails at the key leaves a mixed pair.  When a root is saved over an older one and
  the key file cannot be opened for writing, \<open>SaveRoot\<close> reports the error but has already replaced the
  certificate; \<open>LoadRoot\<close> then accepts the new certificate with the old key, since it compares
  nothing.
\<close>

theorem failed_save_mixes_pair:
  assumes "osFault env (OpenWrite kp) = Some e" "\<And>c. c \<noteq> OpenWrite kp \<Longrightarrow> osFault env c = None"
    and "is_dir fs (filepath_Dir cp)" "is_dir fs (filepath_Dir kp)" "Clean cp \<noteq> Clean kp"
    and "holds_cert fs cp old" "holds_key cy fs kp oldKey" "cert_parses cy new" "key_parses cy oldKey"
    and "cyMarshalKey cy newKey = Inr kb"
    and "osFault env' (OpenRead cp) = None" "osFault env' (OpenRead kp) = None"
  shows "\<exists>err fs'. SaveRoot env cy (Some \<lparr>rtCert = Some new, rtKey = Some newKey\<rparr>) cp kp fs = (Some err, fs')
    \<and> LoadRoot env' cy cp kp fs' = Inr \<lparr>rtCert = Some new, rtKey = Some oldKey\<rparr>"
proof -
  obtain m d where c: "fs (Clean cp) = Some (FileNode m d)"
    using assms(6) by (auto simp: holds_cert_def split: option.splits node.splits)
  let ?fs' = "fs(Clean cp \<mapsto> FileNode m (EncodeToMemory certificate_type (xRaw new)))"
  have "cp \<noteq> kp"
    using assms(5) by auto
  then have "WriteFile env cp (EncodeToMemory certificate_type (xRaw new)) cert_mode fs = (None, ?fs')"
    using c assms(2) by (simp add: WriteFile_def open_trunc_def)
  moreover have "\<exists>e'. WriteFile env kp (EncodeToMemory private_key_type kb) key_mode ?fs' = (Some e', ?fs')"
    using assms(1) by (simp add: WriteFile_def open_trunc_def)
  moreover have "MkdirAll env (filepath_Dir cp) dir_mode fs = (None, fs)"
      "MkdirAll env (filepath_Dir kp) dir_mode fs = (None, fs)"
    using assms(2-4) by (simp_all add: MkdirAll_existing)
  ultimately have "\<exists>err. SaveRoot env cy (Some \<lparr>rtCert = Some new, rtKey = Some newKey\<rparr>) cp kp fs = (Some err, ?fs')"
    using assms(10) by (auto simp: SaveRoot_def write_pair_def)
  moreover have "holds_cert ?fs' cp new" "holds_key cy ?fs' kp oldKey"
    using assms(5,7) by (auto simp: holds_cert_def holds_key_def)
  then have "LoadRoot env' cy cp kp ?fs' = Inr \<lparr>rtCert = Some new, rtKey = Some oldKey\<rparr>"
    using assms(8,9,11,12) by (intro load_pair)
  ultimately show ?thesis
    by blast
qed

definition locked_env :: os_env where
  "locked_env = \<lparr>osUmask = 18, osFault = (\<lambda>c. if c = OpenWrite ''k'' then Some (GoErr ''permission denied'' []) else None),
     osShort = (\<lambda>p. 0)\<rparr>"

definition old_fs :: file_system where
  "old_fs = [''.'' \<mapsto> DirNode 493, ''c'' \<mapsto> FileNode 420 (EncodeToMemory certificate_type [1]),
     ''k'' \<mapsto> FileNode 256 (EncodeToMemory private_key_type [3])]"

theorem failed_save_mixes_pair_witness:
  "\<exists>err fs'. SaveRoot locked_env toy_crypto (Some \<lparr>rtCert = Some (toy_cert 9), rtKey = Some [7]\<rparr>) ''c'' ''k'' old_fs = (Some err, fs')
    \<and> LoadRoot quiet_env toy_crypto ''c'' ''k'' fs' = Inr \<lparr>rtCert = Some (toy_cert 9), rtKey = Some [3]\<rparr>"
  by (rule failed_save_mixes_pair [where old = "toy_cert 1" and kb = "[7]" and e = "GoErr ''permission denied'' []"])
    (simp_all add: locked_env_def quiet_env_def toy_paths toy_parses is_dir_def old_fs_def holds_cert_def
      holds_key_def toy_cert_def toy_crypto_def cert_parses_def key_parses_def)

end
