(* ===== verification/Installer.thy ===== *)
theory Installer
  imports Root_CA "HOL-Library.Sublist"
begin

text \<open>
  The trust-store installers, \<open>src/internal/ca/install.go\<close>.  An installer changes the file system
  and runs commands; both are part of the state, the commands as the list of what has been run.  What
  a command does is the parameter \<open>run\<close>, the seam the code calls \<open>runner\<close>: for the file system it
  starts in, its output, its error and the file system it leaves.  The locale \<open>trust_installer\<close> is the
  contract that the commands rely on; each of the four implementations interprets it.
\<close>

subsection \<open>State\<close>

record world =
  woFs :: file_system
  woRuns :: "string list list"
  woOut :: "string list"

type_synonym runner = "string list \<Rightarrow> file_system \<Rightarrow> bytes \<times> go_error option \<times> file_system"

definition Run :: "runner \<Rightarrow> string list \<Rightarrow> world \<Rightarrow> (bytes \<times> go_error option) \<times> world" where
  "Run run cmd w =
     (case run cmd (woFs w) of
        (out, err, fs') \<Rightarrow> ((out, err), w\<lparr>woFs := fs', woRuns := woRuns w @ [cmd]\<rparr>))"

definition go_string :: "bytes \<Rightarrow> string" where
  "go_string b = map (\<lambda>x. char_of (unat x)) b"

text \<open>Run a command and wrap its error with its output.\<close>

definition run_wrapped :: "runner \<Rightarrow> string \<Rightarrow> string list \<Rightarrow> world \<Rightarrow> go_error option \<times> world" where
  "run_wrapped run what cmd w =
     (case Run run cmd w of
        ((out, Some err), w') \<Rightarrow> (Some (WrapErr (''ca: '' @ what @ '': %w ('' @ go_string out @ '')'') err), w')
      | ((out, None), w') \<Rightarrow> (None, w'))"

subsection \<open>Linux\<close>

definition linuxDefaultDest :: string where
  "linuxDefaultDest = ''/usr/local/share/ca-certificates/tg-proxy.crt''"

definition linux_Describe :: "string \<Rightarrow> string" where
  "linux_Describe dest = ''linux: copy CA to '' @ dest @ '' and run update-ca-certificates''"

definition linux_Install :: "os_env \<Rightarrow> runner \<Rightarrow> string \<Rightarrow> string \<Rightarrow> world \<Rightarrow> go_error option \<times> world" where
  "linux_Install env run dest certPath w =
     (case ReadFile env certPath (woFs w) of
        Inl err \<Rightarrow> (Some (WrapErr ''ca: read source cert: %w'' err), w)
      | Inr data \<Rightarrow>
          (case WriteFile env dest data cert_mode (woFs w) of
             (Some err, fs') \<Rightarrow> (Some (WrapErr (''ca: write '' @ dest @ '': %w'') err), w\<lparr>woFs := fs'\<rparr>)
           | (None, fs') \<Rightarrow>
               run_wrapped run ''update-ca-certificates'' [''update-ca-certificates''] (w\<lparr>woFs := fs'\<rparr>)))"

definition linux_Uninstall :: "os_env \<Rightarrow> runner \<Rightarrow> string \<Rightarrow> string \<Rightarrow> world \<Rightarrow> go_error option \<times> world" where
  "linux_Uninstall env run dest certPath w =
     (let (rm, fs') = os_Remove env dest (woFs w) in
      case rm of
        Some err \<Rightarrow>
          (if errors_Is err ErrNotExist
           then run_wrapped run ''update-ca-certificates --fresh'' [''update-ca-certificates'', ''--fresh'']
                  (w\<lparr>woFs := fs'\<rparr>)
           else (Some (WrapErr (''ca: remove '' @ dest @ '': %w'') err), w\<lparr>woFs := fs'\<rparr>))
      | None \<Rightarrow>
          run_wrapped run ''update-ca-certificates --fresh'' [''update-ca-certificates'', ''--fresh'']
            (w\<lparr>woFs := fs'\<rparr>))"

subsection \<open>macOS\<close>

definition darwinSystemKeychain :: string where
  "darwinSystemKeychain = ''/Library/Keychains/System.keychain''"

definition darwin_Describe :: "string \<Rightarrow> string" where
  "darwin_Describe keychain = ''darwin: security add-trusted-cert -d -r trustRoot -k '' @ keychain"

definition darwin_Install :: "runner \<Rightarrow> string \<Rightarrow> string \<Rightarrow> world \<Rightarrow> go_error option \<times> world" where
  "darwin_Install run keychain certPath w =
     run_wrapped run ''security add-trusted-cert''
       [''security'', ''add-trusted-cert'', ''-d'', ''-r'', ''trustRoot'', ''-k'', keychain, certPath] w"

definition darwin_Uninstall ::
  "os_env \<Rightarrow> ca_crypto \<Rightarrow> runner \<Rightarrow> string \<Rightarrow> string \<Rightarrow> world \<Rightarrow> go_error option \<times> world" where
  "darwin_Uninstall env cy run keychain certPath w =
     (case loadCertPEM env cy certPath (woFs w) of
        Inl err \<Rightarrow> (Some err, w)
      | Inr cert \<Rightarrow>
          if xCommonName cert = []
          then (Some (GoErr ''ca: certificate has no CommonName; cannot remove from keychain'' []), w)
          else run_wrapped run ''security delete-certificate''
                 [''security'', ''delete-certificate'', ''-c'', xCommonName cert, keychain] w)"

subsection \<open>Windows\<close>

definition windows_Describe :: "string \<Rightarrow> string" where
  "windows_Describe store = ''windows: certutil -addstore -f '' @ store"

definition windows_Install :: "runner \<Rightarrow> string \<Rightarrow> string \<Rightarrow> world \<Rightarrow> go_error option \<times> world" where
  "windows_Install run store certPath w =
     run_wrapped run ''certutil -addstore'' [''certutil'', ''-addstore'', ''-f'', store, certPath] w"

definition windows_Uninstall ::
  "os_env \<Rightarrow> ca_crypto \<Rightarrow> runner \<Rightarrow> string \<Rightarrow> string \<Rightarrow> world \<Rightarrow> go_error option \<times> world" where
  "windows_Uninstall env cy run store certPath w =
     (case loadCertPEM env cy certPath (woFs w) of
        Inl err \<Rightarrow> (Some err, w)
      | Inr cert \<Rightarrow>
          if xCommonName cert = []
          then (Some (GoErr ''ca: certificate has no CommonName; cannot remove from store'' []), w)
          else run_wrapped run ''certutil -delstore'' [''certutil'', ''-delstore'', store, xCommonName cert] w)"

subsection \<open>Unsupported systems\<close>

definition unsupported_Describe :: "string \<Rightarrow> string" where
  "unsupported_Describe os = ''trust-store install is not supported on '' @ os"

definition unsupported_Install :: "string \<Rightarrow> string \<Rightarrow> world \<Rightarrow> go_error option \<times> world" where
  "unsupported_Install os certPath w =
     (Some (GoErr ''ca: trust-store install not supported on %s'' [os]), w)"

definition unsupported_Uninstall :: "string \<Rightarrow> string \<Rightarrow> world \<Rightarrow> go_error option \<times> world" where
  "unsupported_Uninstall os certPath w =
     (Some (GoErr ''ca: trust-store uninstall not supported on %s'' [os]), w)"

subsection \<open>The installer of an operating system\<close>

record installer =
  inDescribe :: string
  inInstall :: "string \<Rightarrow> world \<Rightarrow> go_error option \<times> world"
  inUninstall :: "string \<Rightarrow> world \<Rightarrow> go_error option \<times> world"

definition newLinuxInstaller :: "os_env \<Rightarrow> runner \<Rightarrow> installer" where
  "newLinuxInstaller env run =
     \<lparr>inDescribe = linux_Describe linuxDefaultDest, inInstall = linux_Install env run linuxDefaultDest,
      inUninstall = linux_Uninstall env run linuxDefaultDest\<rparr>"

definition newDarwinInstaller :: "os_env \<Rightarrow> ca_crypto \<Rightarrow> runner \<Rightarrow> installer" where
  "newDarwinInstaller env cy run =
     \<lparr>inDescribe = darwin_Describe darwinSystemKeychain, inInstall = darwin_Install run darwinSystemKeychain,
      inUninstall = darwin_Uninstall env cy run darwinSystemKeychain\<rparr>"

definition newWindowsInstaller :: "os_env \<Rightarrow> ca_crypto \<Rightarrow> runner \<Rightarrow> installer" where
  "newWindowsInstaller env cy run =
     \<lparr>inDescribe = windows_Describe ''Root'', inInstall = windows_Install run ''Root'',
      inUninstall = windows_Uninstall env cy run ''Root''\<rparr>"

definition unsupportedInstaller :: "string \<Rightarrow> installer" where
  "unsupportedInstaller os =
     \<lparr>inDescribe = unsupported_Describe os, inInstall = unsupported_Install os,
      inUninstall = unsupported_Uninstall os\<rparr>"

text \<open>\<open>DefaultInstaller\<close> of each build, and the choice that the build tags make.\<close>

definition DefaultInstaller_linux :: "os_env \<Rightarrow> runner \<Rightarrow> installer" where
  "DefaultInstaller_linux env run = newLinuxInstaller env run"

definition DefaultInstaller_darwin :: "os_env \<Rightarrow> ca_crypto \<Rightarrow> runner \<Rightarrow> installer" where
  "DefaultInstaller_darwin env cy run = newDarwinInstaller env cy run"

definition DefaultInstaller_windows :: "os_env \<Rightarrow> ca_crypto \<Rightarrow> runner \<Rightarrow> installer" where
  "DefaultInstaller_windows env cy run = newWindowsInstaller env cy run"

definition DefaultInstaller_unsupported :: "string \<Rightarrow> installer" where
  "DefaultInstaller_unsupported goos = unsupportedInstaller goos"

definition DefaultInstaller :: "string \<Rightarrow> os_env \<Rightarrow> ca_crypto \<Rightarrow> runner \<Rightarrow> installer" where
  "DefaultInstaller goos env cy run =
     (if goos = ''linux'' then DefaultInstaller_linux env run
      else if goos = ''darwin'' then DefaultInstaller_darwin env cy run
      else if goos = ''windows'' then DefaultInstaller_windows env cy run
      else DefaultInstaller_unsupported goos)"

lemmas default_installer_defs = DefaultInstaller_def DefaultInstaller_linux_def DefaultInstaller_darwin_def
  DefaultInstaller_windows_def DefaultInstaller_unsupported_def

subsection \<open>The contract\<close>

text \<open>
  One operation on the trust store: it runs at most one command, succeeds only if it ran one and that
  command succeeded and was the last to change the file system, and prints nothing.
\<close>

definition ran_ok :: "runner \<Rightarrow> world \<Rightarrow> world \<Rightarrow> bool" where
  "ran_ok run w w' \<longleftrightarrow>
     (\<exists>cmd fs out. woRuns w' = woRuns w @ [cmd] \<and> run cmd fs = (out, None, woFs w'))"

locale trust_operation =
  fixes run :: runner
    and oper :: "string \<Rightarrow> world \<Rightarrow> go_error option \<times> world"
  assumes one_command: "woRuns (snd (oper p w)) = woRuns w \<or> (\<exists>cmd. woRuns (snd (oper p w)) = woRuns w @ [cmd])"
    and success: "fst (oper p w) = None \<Longrightarrow> ran_ok run w (snd (oper p w))"
    and silent: "woOut (snd (oper p w)) = woOut w"
begin

lemma nothing_run: "woRuns (snd (oper p w)) = woRuns w \<Longrightarrow> fst (oper p w) \<noteq> None"
  using success [of p w] by (auto simp: ran_ok_def)

end

locale trust_installer =
  fixes run :: runner and inst :: installer
  assumes installs: "trust_operation run (inInstall inst)"
    and uninstalls: "trust_operation run (inUninstall inst)"
begin

lemma success_either:
  "oper \<in> {inInstall inst, inUninstall inst} \<Longrightarrow> fst (oper p w) = None \<Longrightarrow> ran_ok run w (snd (oper p w))"
  using trust_operation.success [OF installs] trust_operation.success [OF uninstalls] by auto

lemma one_command_either:
  "oper \<in> {inInstall inst, inUninstall inst} \<Longrightarrow>
    woRuns (snd (oper p w)) = woRuns w \<or> (\<exists>cmd. woRuns (snd (oper p w)) = woRuns w @ [cmd])"
  using trust_operation.one_command [OF installs] trust_operation.one_command [OF uninstalls] by auto

lemma silent_either: "oper \<in> {inInstall inst, inUninstall inst} \<Longrightarrow> woOut (snd (oper p w)) = woOut w"
  using trust_operation.silent [OF installs] trust_operation.silent [OF uninstalls] by auto

end

lemma run_wrapped_simps [simp]:
  "woRuns (snd (run_wrapped run what cmd w)) = woRuns w @ [cmd]"
  "woOut (snd (run_wrapped run what cmd w)) = woOut w"
  "woFs (snd (run_wrapped run what cmd w)) = snd (snd (run cmd (woFs w)))"
  "fst (run_wrapped run what cmd w) = None \<longleftrightarrow> fst (snd (run cmd (woFs w))) = None"
  by (auto simp: run_wrapped_def Run_def split: prod.splits option.splits)

lemma run_wrapped_done:
  "run_wrapped run what cmd w = (None, w') \<Longrightarrow> \<exists>out. run cmd (woFs w) = (out, None, woFs w')"
  by (auto simp: run_wrapped_def Run_def split: prod.splits option.splits)

lemma run_wrapped_ran:
  "fst (run_wrapped run what cmd w) = None \<Longrightarrow> ran_ok run w (snd (run_wrapped run what cmd w))"
  unfolding ran_ok_def by (metis run_wrapped_simps(1) run_wrapped_done prod.collapse)

lemma ran_ok_fs: "ran_ok run (w\<lparr>woFs := fs\<rparr>) w' = ran_ok run w w'"
  by (simp add: ran_ok_def)

lemma run_wrapped_operation: "trust_operation run (\<lambda>p. run_wrapped run what (cmd p))"
  by unfold_locales (simp_all add: run_wrapped_ran del: run_wrapped_simps(4))

lemma run_wrapped_ran_fs:
  "fst (run_wrapped run what cmd (w\<lparr>woFs := fs\<rparr>)) = None \<Longrightarrow>
    ran_ok run w (snd (run_wrapped run what cmd (w\<lparr>woFs := fs\<rparr>)))"
  using run_wrapped_ran ran_ok_fs by blast

interpretation linux_in: trust_operation run "linux_Install env run dest" for env run dest
  by unfold_locales
    (auto simp: linux_Install_def run_wrapped_ran_fs simp del: run_wrapped_simps(4)
      split: sum.splits prod.splits option.splits)

interpretation linux_un: trust_operation run "linux_Uninstall env run dest" for env run dest
  by unfold_locales
    (auto simp: linux_Uninstall_def run_wrapped_ran_fs simp del: run_wrapped_simps(4)
      split: prod.splits option.splits if_splits)

interpretation darwin_in: trust_operation run "darwin_Install run keychain" for run keychain
  using run_wrapped_operation unfolding darwin_Install_def .

interpretation darwin_un: trust_operation run "darwin_Uninstall env cy run keychain" for env cy run keychain
  by unfold_locales
    (auto simp: darwin_Uninstall_def run_wrapped_ran simp del: run_wrapped_simps(4)
      split: sum.splits if_splits)

interpretation windows_in: trust_operation run "windows_Install run st" for run st
  using run_wrapped_operation unfolding windows_Install_def .

interpretation windows_un: trust_operation run "windows_Uninstall env cy run st" for env cy run st
  by unfold_locales
    (auto simp: windows_Uninstall_def run_wrapped_ran simp del: run_wrapped_simps(4)
      split: sum.splits if_splits)

interpretation unsupported_in: trust_operation run "unsupported_Install os" for run os
  by unfold_locales (simp_all add: unsupported_Install_def)

interpretation unsupported_un: trust_operation run "unsupported_Uninstall os" for run os
  by unfold_locales (simp_all add: unsupported_Uninstall_def)

interpretation default_installer: trust_installer run "DefaultInstaller goos env cy run" for goos env cy run
  by (rule trust_installer.intro)
    (simp_all add: default_installer_defs newLinuxInstaller_def newDarwinInstaller_def newWindowsInstaller_def
      unsupportedInstaller_def linux_in.trust_operation_axioms linux_un.trust_operation_axioms
        darwin_in.trust_operation_axioms darwin_un.trust_operation_axioms
        windows_in.trust_operation_axioms windows_un.trust_operation_axioms
        unsupported_in.trust_operation_axioms unsupported_un.trust_operation_axioms)

subsection \<open>Properties\<close>

text \<open>
  On every operating system, an install or uninstall that runs no command is reported as failed.
\<close>

lemma installer_runs_or_fails:
  assumes "oper \<in> {inInstall (DefaultInstaller goos env cy run), inUninstall (DefaultInstaller goos env cy run)}"
    and "woRuns (snd (oper p w)) = woRuns w"
  shows "fst (oper p w) \<noteq> None"
  using default_installer.success_either [OF assms(1), of p w] assms(2) by (auto simp: ran_ok_def)

definition idle_world :: "file_system \<Rightarrow> world" where
  "idle_world fs = \<lparr>woFs = fs, woRuns = [], woOut = []\<rparr>"

definition obedient :: runner where
  "obedient cmd fs = ([], None, fs)"

text \<open>
  The manual page of \<open>update-ca-certificates\<close>: the certificates in the \<open>.crt\<close> files below
  \<open>/usr/local/share/ca-certificates\<close> are trusted, with those the distribution enables, and the command
  changes nothing below that directory.  \<open>trusted\<close> reads the trust store in the file system.
\<close>

definition local_cert :: "string \<Rightarrow> file_system \<Rightarrow> bytes \<Rightarrow> bool" where
  "local_cert p fs c \<longleftrightarrow> prefix ''/usr/local/share/ca-certificates/'' p \<and> suffix ''.crt'' p \<and>
     (\<exists>m. fs p = Some (FileNode m c))"

definition update_documented ::
  "(file_system \<Rightarrow> bytes \<Rightarrow> bool) \<Rightarrow> (bytes \<Rightarrow> bool) \<Rightarrow> runner \<Rightarrow> bool" where
  "update_documented trusted distro run \<longleftrightarrow>
     (\<forall>args fs out fs'. args = [] \<or> args = [''--fresh''] \<longrightarrow>
        run (''update-ca-certificates'' # args) fs = (out, None, fs') \<longrightarrow>
        (\<forall>p. prefix ''/usr/local/share/ca-certificates/'' p \<longrightarrow> fs' p = fs p) \<and>
        (\<forall>c. trusted fs' c \<longleftrightarrow> distro c \<or> (\<exists>p. local_cert p fs c)))"

lemma default_dest: "Clean linuxDefaultDest = linuxDefaultDest"
  "prefix ''/usr/local/share/ca-certificates/'' linuxDefaultDest" "suffix ''.crt'' linuxDefaultDest"
  unfolding linuxDefaultDest_def by code_simp+

lemma updated:
  assumes "update_documented trusted distro run" "args = [] \<or> args = [''--fresh'']"
    and "run_wrapped run what (''update-ca-certificates'' # args) w = (None, w')"
  shows "prefix ''/usr/local/share/ca-certificates/'' p \<Longrightarrow> woFs w' p = woFs w p"
    and "trusted (woFs w') c \<longleftrightarrow> distro c \<or> (\<exists>p. local_cert p (woFs w) c)"
proof -
  obtain out where "run (''update-ca-certificates'' # args) (woFs w) = (out, None, woFs w')"
    using run_wrapped_done [OF assms(3)] by blast
  then show "prefix ''/usr/local/share/ca-certificates/'' p \<Longrightarrow> woFs w' p = woFs w p"
    and "trusted (woFs w') c \<longleftrightarrow> distro c \<or> (\<exists>p. local_cert p (woFs w) c)"
    using assms(1,2) unfolding update_documented_def by blast+
qed

lemma linux_installed:
  assumes "linux_Install env run dest cp w = (None, w1)"
  obtains data m where "ReadFile env cp (woFs w) = Inr data"
    "run_wrapped run ''update-ca-certificates'' [''update-ca-certificates'']
       (w\<lparr>woFs := (woFs w)(Clean dest \<mapsto> FileNode m data)\<rparr>) = (None, w1)"
proof -
  obtain data fs1 where r: "ReadFile env cp (woFs w) = Inr data"
      "WriteFile env dest data cert_mode (woFs w) = (None, fs1)"
      "run_wrapped run ''update-ca-certificates'' [''update-ca-certificates''] (w\<lparr>woFs := fs1\<rparr>) = (None, w1)"
    using assms by (auto simp: linux_Install_def split: sum.splits prod.splits option.splits)
  then show thesis
    using WriteFile_done [OF r(2)] that by blast
qed

lemma linux_uninstalled:
  assumes "linux_Uninstall env run dest cp w = (None, w1)" "osFault env (RemoveFile dest) = None"
  shows "run_wrapped run ''update-ca-certificates --fresh'' [''update-ca-certificates'', ''--fresh'']
    (w\<lparr>woFs := (woFs w)(Clean dest := None)\<rparr>) = (None, w1)"
proof -
  have "(woFs w)(Clean dest := None) = woFs w" if "woFs w (Clean dest) = None"
    using that by auto
  moreover have "\<not> errors_Is (path_error ''remove'' dest (GoErr ''directory not empty'' [])) ErrNotExist"
    by (simp add: path_error_def ErrNotExist_def)
  ultimately show ?thesis
    using assms by (auto simp: linux_Uninstall_def os_Remove_def Let_def split: option.splits node.splits if_splits)
qed

text \<open>
  C35: On Linux, installing makes the system trust the certificate and uninstalling takes that back.
  Let \<open>update-ca-certificates\<close> do what its manual page says.  After a successful install the bytes of
  the certificate file are at the destination, in place of whatever was there, and are trusted.  After
  a successful uninstall (on a system that does not refuse to remove the file) nothing is at the
  destination, and the certificate is trusted only if the distribution or another file among the local
  certificates vouches for it.
\<close>

theorem linux_install_uninstall:
  assumes doc: "update_documented trusted distro run" "update_documented trusted distro run'"
    and inst: "inInstall (DefaultInstaller ''linux'' env cy run) cp w = (None, w1)"
    and uninst: "inUninstall (DefaultInstaller ''linux'' env' cy run') cp' w1 = (None, w2)"
    and quiet: "osFault env' (RemoveFile linuxDefaultDest) = None"
  shows "\<exists>m data. ReadFile env cp (woFs w) = Inr data
    \<and> woFs w1 linuxDefaultDest = Some (FileNode m data) \<and> trusted (woFs w1) data
    \<and> woFs w2 linuxDefaultDest = None
    \<and> (trusted (woFs w2) data \<longleftrightarrow> distro data \<or> (\<exists>p. p \<noteq> linuxDefaultDest \<and> local_cert p (woFs w) data))"
proof -
  have ops: "linux_Install env run linuxDefaultDest cp w = (None, w1)"
      "linux_Uninstall env' run' linuxDefaultDest cp' w1 = (None, w2)"
    using inst uninst by (simp_all add: default_installer_defs newLinuxInstaller_def)
  obtain data m where data: "ReadFile env cp (woFs w) = Inr data"
      "run_wrapped run ''update-ca-certificates'' [''update-ca-certificates'']
         (w\<lparr>woFs := (woFs w)(linuxDefaultDest \<mapsto> FileNode m data)\<rparr>) = (None, w1)"
    using linux_installed [OF ops(1)] unfolding default_dest(1) .
  note up = updated [OF doc(1) disjI1 [OF refl] data(2), simplified]
  note down = updated [OF doc(2) disjI2 [OF refl] linux_uninstalled [OF ops(2) quiet],
      unfolded default_dest(1), simplified]
  have "local_cert linuxDefaultDest ((woFs w)(linuxDefaultDest \<mapsto> FileNode m data)) data"
    using default_dest by (simp add: local_cert_def)
  then have "trusted (woFs w1) data"
    using up(2) by blast
  moreover have "local_cert p ((woFs w1)(linuxDefaultDest := None)) data \<longleftrightarrow>
      p \<noteq> linuxDefaultDest \<and> local_cert p (woFs w) data" for p
    using up(1) [of p] unfolding local_cert_def by (cases "p = linuxDefaultDest") (simp_all, metis)
  ultimately show ?thesis
    using data(1) up(1) [OF default_dest(2)] down(1) [OF default_dest(2)] down(2) [of data] by auto
qed

definition source_fs :: file_system where
  "source_fs = [''/usr/local/share/ca-certificates'' \<mapsto> DirNode 493, ''c'' \<mapsto> FileNode 420 [5, 6]]"

definition local_trust :: "file_system \<Rightarrow> bytes \<Rightarrow> bool" where
  "local_trust fs c \<longleftrightarrow> (\<exists>p. local_cert p fs c)"

theorem linux_install_uninstall_witness:
  "\<exists>w1 w2. inInstall (DefaultInstaller ''linux'' quiet_env toy_crypto obedient) ''c'' (idle_world source_fs) = (None, w1)
    \<and> inUninstall (DefaultInstaller ''linux'' quiet_env toy_crypto obedient) ''c'' w1 = (None, w2)
    \<and> local_trust (woFs w1) [5, 6] \<and> \<not> local_trust (woFs w2) [5, 6]"
proof -
  let ?inst = "DefaultInstaller ''linux'' quiet_env toy_crypto obedient" and ?w = "idle_world source_fs"
  have doc: "update_documented local_trust (\<lambda>c. False) obedient"
    by (simp add: update_documented_def obedient_def local_trust_def)
  have r: "ReadFile quiet_env ''c'' source_fs = Inr [5, 6]"
    by (simp add: ReadFile_def quiet_env_def toy_paths source_fs_def)
  have dir: "filepath_Dir linuxDefaultDest = ''/usr/local/share/ca-certificates''"
      "Clean ''/usr/local/share/ca-certificates'' = ''/usr/local/share/ca-certificates''"
    unfolding linuxDefaultDest_def by code_simp+
  have "source_fs linuxDefaultDest = None"
    by (simp add: source_fs_def linuxDefaultDest_def)
  then have "WriteFile quiet_env linuxDefaultDest [5, 6] cert_mode source_fs =
      (None, source_fs(linuxDefaultDest \<mapsto> FileNode (cert_mode AND NOT 18) [5, 6]))"
    using WriteFile_creates [of quiet_env source_fs linuxDefaultDest]
    by (simp add: default_dest(1) dir quiet_def quiet_env_def is_dir_def) (simp add: source_fs_def)
  then obtain w1 where w1: "inInstall ?inst ''c'' ?w = (None, w1)"
      "woFs w1 = source_fs(linuxDefaultDest \<mapsto> FileNode (cert_mode AND NOT 18) [5, 6])"
    using r by (simp add: default_installer_defs newLinuxInstaller_def linux_Install_def idle_world_def
        run_wrapped_def Run_def obedient_def)
  then obtain w2 where w2: "inUninstall ?inst ''c'' w1 = (None, w2)"
    by (simp add: default_installer_defs newLinuxInstaller_def linux_Uninstall_def os_Remove_def run_wrapped_def
        Run_def obedient_def default_dest(1) quiet_env_def Let_def)
  have "osFault quiet_env (RemoveFile linuxDefaultDest) = None"
    by (simp add: quiet_env_def)
  from linux_install_uninstall [OF doc doc w1(1) w2 this]
  have "local_trust (woFs w1) [5, 6]" "\<not> local_trust (woFs w2) [5, 6]"
    using r by (auto simp: idle_world_def local_cert_def source_fs_def)
  then show ?thesis
    using w1 w2 by blast
qed

end
