(* ===== verification/Go_Flag.thy ===== *)
theory Go_Flag
  imports Go_Net
begin

text \<open>
  What the commands use of Go's \<open>flag\<close> package: parsing of string and boolean flags.  A flag set is
  an association list from names to values, which start as the defaults.  What the package
  prints on an error is left to the caller.
\<close>

datatype flag_value = FString string | FBool bool

type_synonym flag_set = "(string \<times> flag_value) list"

definition ErrHelp :: go_error where
  "ErrHelp = Sentinel ''flag: help requested''"

definition ParseBool :: "string \<Rightarrow> bool option" where
  "ParseBool s =
     (if s \<in> set [''1'', ''t'', ''T'', ''true'', ''TRUE'', ''True''] then Some True
      else if s \<in> set [''0'', ''f'', ''F'', ''false'', ''FALSE'', ''False''] then Some False
      else None)"

text \<open>The name of a flag and its value, if one follows an equals sign.\<close>

definition split_flag :: "string \<Rightarrow> string \<times> string option" where
  "split_flag s =
     (case IndexByte s CHR ''='' of None \<Rightarrow> (s, None) | Some i \<Rightarrow> (take i s, Some (drop (Suc i) s)))"

definition set_flag :: "string \<Rightarrow> flag_value \<Rightarrow> flag_set \<Rightarrow> flag_set" where
  "set_flag name v fs = map (\<lambda>(n, old). (n, if n = name then v else old)) fs"

text \<open>How an argument reads: not a flag, the end of the flags, malformed, or a flag.\<close>

datatype flag_arg = NoFlag | EndFlags | BadFlag | Flag string "string option"

definition read_flag :: "string \<Rightarrow> flag_arg" where
  "read_flag s =
     (if length s < 2 \<or> hd s \<noteq> CHR ''-'' then NoFlag
      else if s = ''--'' then EndFlags
      else let name = drop (if s ! 1 = CHR ''-'' then 2 else 1) s in
           if name = [] \<or> hd name = CHR ''-'' \<or> hd name = CHR ''='' then BadFlag
           else case split_flag name of (n, v) \<Rightarrow> Flag n v)"

fun flag_Parse :: "flag_set \<Rightarrow> string list \<Rightarrow> go_error + (flag_set \<times> string list)" where
  "flag_Parse fs [] = Inr (fs, [])"
| "flag_Parse fs (s # args) =
     (case read_flag s of
        NoFlag \<Rightarrow> Inr (fs, s # args)
      | EndFlags \<Rightarrow> Inr (fs, args)
      | BadFlag \<Rightarrow> Inl (GoErr ''bad flag syntax: %s'' [s])
      | Flag name val \<Rightarrow>
          (case map_of fs name of
             None \<Rightarrow>
               if name = ''help'' \<or> name = ''h'' then Inl ErrHelp
               else Inl (GoErr ''flag provided but not defined: -%s'' [name])
           | Some (FBool old) \<Rightarrow>
               (case val of
                  None \<Rightarrow> flag_Parse (set_flag name (FBool True) fs) args
                | Some v \<Rightarrow>
                    (case ParseBool v of
                       None \<Rightarrow> Inl (GoErr ''invalid boolean value %q for -%s: %v'' [v, name])
                     | Some b \<Rightarrow> flag_Parse (set_flag name (FBool b) fs) args))
           | Some (FString old) \<Rightarrow>
               (case val of
                  Some v \<Rightarrow> flag_Parse (set_flag name (FString v) fs) args
                | None \<Rightarrow>
                    (case args of
                       [] \<Rightarrow> Inl (GoErr ''flag needs an argument: -%s'' [name])
                     | v # args' \<Rightarrow> flag_Parse (set_flag name (FString v) fs) args'))))"

definition flag_string :: "flag_set \<Rightarrow> string \<Rightarrow> string" where
  "flag_string fs name = (case map_of fs name of Some (FString s) \<Rightarrow> s | _ \<Rightarrow> [])"

definition flag_bool :: "flag_set \<Rightarrow> string \<Rightarrow> bool" where
  "flag_bool fs name = (case map_of fs name of Some (FBool b) \<Rightarrow> b | _ \<Rightarrow> False)"

subsection \<open>Lemmas\<close>

lemma map_of_set_flag: "map_of (set_flag n v fs) k = (if k = n \<and> map_of fs k \<noteq> None then Some v else map_of fs k)"
  by (induction fs) (auto simp: set_flag_def)

text \<open>Settings written as separate arguments are read back, a later one replacing an earlier one.\<close>

definition flag_args :: "(string \<times> string) list \<Rightarrow> string list" where
  "flag_args kvs = concat (map (\<lambda>(k, v). [CHR ''-'' # k, v]) kvs)"

definition flag_name :: "string \<Rightarrow> bool" where
  "flag_name n \<longleftrightarrow> n \<noteq> [] \<and> hd n \<noteq> CHR ''-'' \<and> CHR ''='' \<notin> set n"

lemma read_flag_name:
  assumes "flag_name n" shows "read_flag (CHR ''-'' # n) = Flag n None"
proof -
  have "n \<noteq> []" "hd n \<noteq> CHR ''=''" "n ! 0 = hd n"
    using assms hd_in_set [of n] unfolding flag_name_def by (blast, metis, simp add: hd_conv_nth)
  then show ?thesis
    using assms by (cases n) (auto simp: read_flag_def split_flag_def flag_name_def Let_def
        IndexByte_None [THEN iffD2])
qed

lemma flag_Parse_args:
  assumes "\<And>k v. (k, v) \<in> set kvs \<Longrightarrow> flag_name k \<and> (\<exists>s. map_of fs k = Some (FString s))"
  shows "flag_Parse fs (flag_args kvs @ args) =
    flag_Parse (foldl (\<lambda>f (k, v). set_flag k (FString v) f) fs kvs) args"
  using assms
proof (induction kvs arbitrary: fs)
  case (Cons kv kvs)
  obtain k v where kv: "kv = (k, v)" by fastforce
  have "\<exists>s. map_of (set_flag k (FString v) fs) k' = Some (FString s)" if "(k', v') \<in> set kvs" for k' v'
    using Cons.prems [of k' v'] that by (auto simp: map_of_set_flag)
  then have "flag_Parse (set_flag k (FString v) fs) (flag_args kvs @ args) =
      flag_Parse (foldl (\<lambda>f (k, v). set_flag k (FString v) f) (set_flag k (FString v) fs) kvs) args"
    using Cons.prems by (intro Cons.IH) auto
  then show ?case
    using Cons.prems [of k v] by (auto simp: kv flag_args_def read_flag_name)
qed (simp add: flag_args_def)

end
