(* ===== verification/Ca_Cmd.thy ===== *)
theory Ca_Cmd
  imports Installer Go_Flag Cmd
begin

text \<open>
  The \<open>ca\<close> subcommands, \<open>src/cmd/tg-proxy/ca_cmd.go\<close>: generating, installing and removing the root
  CA, as functions on the file system, the commands run and the lines printed.
\<close>

subsection \<open>Environment\<close>

record ca_env =
  aeOs :: os_env
  aeCrypto :: ca_crypto
  aeGetenv :: "string \<Rightarrow> string"
  aeInstaller :: installer
  aeUsage :: "flag_set \<Rightarrow> go_error \<Rightarrow> string list"

definition caResolve :: "ca_env \<Rightarrow> string \<Rightarrow> string \<Rightarrow> go_error + string \<times> string" where
  "caResolve ae certPath keyPath = resolvePaths (DefaultCAPaths (aeGetenv ae)) certPath keyPath"

definition exists_path :: "os_env \<Rightarrow> string \<Rightarrow> file_system \<Rightarrow> bool" where
  "exists_path env p fs = (case os_Stat env p fs of Inl err \<Rightarrow> False | Inr n \<Rightarrow> True)"

text \<open>Package \<open>flag\<close> prints the error and its usage text, a parameter here, when it cannot parse.\<close>

definition print_usage :: "ca_env \<Rightarrow> flag_set \<Rightarrow> go_error \<Rightarrow> world \<Rightarrow> world" where
  "print_usage ae defined err w = w\<lparr>woOut := woOut w @ aeUsage ae defined err\<rparr>"

definition println :: "string \<Rightarrow> world \<Rightarrow> world" where
  "println line w = w\<lparr>woOut := woOut w @ [line]\<rparr>"

subsection \<open>The subcommands\<close>

definition generate_flags :: flag_set where
  "generate_flags = [(''cert-path'', FString []), (''key-path'', FString []),
     (''org'', FString ''tg-proxy CA''), (''force'', FBool False)]"

definition runCAGenerate :: "ca_env \<Rightarrow> string list \<Rightarrow> world \<Rightarrow> go_error option \<times> world" where
  "runCAGenerate ae args w =
     (case flag_Parse generate_flags args of
        Inl err \<Rightarrow> (Some err, print_usage ae generate_flags err w)
      | Inr (fs, rest) \<Rightarrow>
          (case caResolve ae (flag_string fs ''cert-path'') (flag_string fs ''key-path'') of
             Inl err \<Rightarrow> (Some err, w)
           | Inr (cp, kp) \<Rightarrow>
               if \<not> flag_bool fs ''force'' \<and>
                  (exists_path (aeOs ae) cp (woFs w) \<or> exists_path (aeOs ae) kp (woFs w))
               then (Some (GoErr ''ca: %s or %s already exists; pass -force to overwrite'' [cp, kp]), w)
               else (case NewRoot (aeCrypto ae) (flag_string fs ''org'') of
                       Inl err \<Rightarrow> (Some err, w)
                     | Inr rt \<Rightarrow>
                         (case SaveRoot (aeOs ae) (aeCrypto ae) (Some rt) cp kp (woFs w) of
                            (Some err, fs') \<Rightarrow> (Some err, w\<lparr>woFs := fs'\<rparr>)
                          | (None, fs') \<Rightarrow>
                              (None,
                               println (''next: run `tg-proxy ca install -cert-path '' @ cp @
                                          ''` (requires admin) to trust this CA OS-wide'')
                                 (println (''wrote CA key:  '' @ kp)
                                    (println (''wrote CA cert: '' @ cp) (w\<lparr>woFs := fs'\<rparr>))))))))"

definition path_flags :: flag_set where
  "path_flags = [(''cert-path'', FString [])]"

text \<open>\<open>install\<close> and \<open>uninstall\<close> differ in the operation and the words they print.\<close>

definition run_installer ::
  "ca_env \<Rightarrow> (string \<Rightarrow> world \<Rightarrow> go_error option \<times> world) \<Rightarrow> (string \<Rightarrow> string) \<Rightarrow> string list \<Rightarrow> world
    \<Rightarrow> go_error option \<times> world" where
  "run_installer ae oper message args w =
     (case flag_Parse path_flags args of
        Inl err \<Rightarrow> (Some err, print_usage ae path_flags err w)
      | Inr (fs, rest) \<Rightarrow>
          (case caResolve ae (flag_string fs ''cert-path'') [] of
             Inl err \<Rightarrow> (Some err, w)
           | Inr (cp, kp) \<Rightarrow>
               (case oper cp (println (inDescribe (aeInstaller ae)) w) of
                  (Some err, w') \<Rightarrow> (Some err, w')
                | (None, w') \<Rightarrow> (None, println (message cp) w'))))"

definition runCAInstall :: "ca_env \<Rightarrow> string list \<Rightarrow> world \<Rightarrow> go_error option \<times> world" where
  "runCAInstall ae =
     run_installer ae (inInstall (aeInstaller ae)) (\<lambda>cp. ''installed '' @ cp @ '' into the OS trust store'')"

definition runCAUninstall :: "ca_env \<Rightarrow> string list \<Rightarrow> world \<Rightarrow> go_error option \<times> world" where
  "runCAUninstall ae =
     run_installer ae (inUninstall (aeInstaller ae)) (\<lambda>cp. ''uninstalled '' @ cp @ '' from the OS trust store'')"

definition runCAPath :: "ca_env \<Rightarrow> string list \<Rightarrow> world \<Rightarrow> go_error option \<times> world" where
  "runCAPath ae args w =
     (case flag_Parse [] args of
        Inl err \<Rightarrow> (Some err, print_usage ae [] err w)
      | Inr (fs, rest) \<Rightarrow>
          (case caResolve ae [] [] of
             Inl err \<Rightarrow> (Some err, w)
           | Inr (cp, kp) \<Rightarrow> (None, println (''key:  '' @ kp) (println (''cert: '' @ cp) w))))"

definition runCA :: "ca_env \<Rightarrow> string list \<Rightarrow> world \<Rightarrow> go_error option \<times> world" where
  "runCA ae args w =
     (case args of
        [] \<Rightarrow> (Some (GoErr ''usage: tg-proxy ca <generate|install|uninstall|path> [flags]'' []), w)
      | sub # rest \<Rightarrow>
          if sub = ''generate'' then runCAGenerate ae rest w
          else if sub = ''install'' then runCAInstall ae rest w
          else if sub = ''uninstall'' then runCAUninstall ae rest w
          else if sub = ''path'' then runCAPath ae rest w
          else (Some (GoErr (''unknown '' @ [CHR 0x27] @ ''ca'' @ [CHR 0x27] @ '' subcommand %q'') [sub]), w))"

subsection \<open>Lemmas\<close>

text \<open>A run of \<open>generate\<close> that got as far as saving.\<close>

lemma generate_cases:
  assumes "runCAGenerate ae args w = (None, w')"
  obtains fs rest cp kp cert key fs' where
    "flag_Parse generate_flags args = Inr (fs, rest)"
    "caResolve ae (flag_string fs ''cert-path'') (flag_string fs ''key-path'') = Inr (cp, kp)"
    "NewRoot (aeCrypto ae) (flag_string fs ''org'') = Inr \<lparr>rtCert = Some cert, rtKey = Some key\<rparr>"
    "SaveRoot (aeOs ae) (aeCrypto ae) (Some \<lparr>rtCert = Some cert, rtKey = Some key\<rparr>) cp kp (woFs w) = (None, fs')"
    "woFs w' = fs'"
proof -
  obtain fs rest where f: "flag_Parse generate_flags args = Inr (fs, rest)"
    using assms by (cases "flag_Parse generate_flags args") (auto simp: runCAGenerate_def)
  obtain cp kp where p: "caResolve ae (flag_string fs ''cert-path'') (flag_string fs ''key-path'') = Inr (cp, kp)"
    using assms f
    by (cases "caResolve ae (flag_string fs ''cert-path'') (flag_string fs ''key-path'')") (auto simp: runCAGenerate_def)
  obtain rt where r: "NewRoot (aeCrypto ae) (flag_string fs ''org'') = Inr rt"
    using assms f p
    by (cases "NewRoot (aeCrypto ae) (flag_string fs ''org'')") (auto simp: runCAGenerate_def split: if_splits)
  obtain cert key where ck: "rt = \<lparr>rtCert = Some cert, rtKey = Some key\<rparr>"
    using r by (auto simp: NewRoot_def Let_def split: sum.splits)
  obtain e fs' where s: "SaveRoot (aeOs ae) (aeCrypto ae) (Some rt) cp kp (woFs w) = (e, fs')"
    by fastforce
  have "e = None" "woFs w' = fs'"
    using assms f p r s by (auto simp: runCAGenerate_def println_def split: if_splits option.splits)
  then show ?thesis
    using that [OF f p r [unfolded ck] s [unfolded ck \<open>e = None\<close>]] by blast
qed

lemma write_pair_keeps:
  assumes "fs q = Some n" "q \<noteq> Clean cp" "q \<noteq> Clean kp"
  shows "snd (write_pair env cy cert key cp kp fs) q = Some n"
proof -
  obtain r fs1 where w: "WriteFile env cp (EncodeToMemory certificate_type (xRaw cert)) cert_mode fs = (r, fs1)"
    by fastforce
  have "fs1 q = Some n"
    using WriteFile_elsewhere [OF assms(2), of env _ cert_mode fs] assms(1) w by (metis snd_conv)
  moreover have "snd (WriteFile env kp d key_mode fs1) q = fs1 q" for d
    using assms(3) by (rule WriteFile_elsewhere)
  ultimately show ?thesis
    unfolding write_pair_def w by (auto split: option.split sum.split prod.split) (metis snd_conv)+
qed

lemma SaveRoot_keeps:
  assumes "fs q = Some n" "q \<noteq> Clean cp" "q \<noteq> Clean kp"
  shows "snd (SaveRoot env cy r cp kp fs) q = Some n"
proof -
  obtain r1 fs1 where m1: "MkdirAll env (filepath_Dir cp) dir_mode fs = (r1, fs1)" by fastforce
  obtain r2 fs2 where m2: "MkdirAll env (filepath_Dir kp) dir_mode fs1 = (r2, fs2)" by fastforce
  have "fs1 q = Some n"
    using MkdirAll_keeps [of fs q n env "filepath_Dir cp" dir_mode] assms(1) m1 by simp
  moreover from this have "fs2 q = Some n"
    using MkdirAll_keeps [of fs1 q n env "filepath_Dir kp" dir_mode] m2 by simp
  ultimately show ?thesis
    using write_pair_keeps [OF _ assms(2,3), of fs2] assms(1) m1 m2
    by (simp add: SaveRoot_def split: option.splits prod.splits)
qed

lemma exists_path_quiet:
  "osFault env (StatFile p) = None \<Longrightarrow> exists_path env p fs \<longleftrightarrow> fs (Clean p) \<noteq> None"
  by (auto simp: exists_path_def os_Stat_def split: option.splits)

lemma parse_paths:
  obtains fs where "flag_Parse generate_flags [''-cert-path'', cp, ''-key-path'', kp] = Inr (fs, [])"
    "flag_string fs ''cert-path'' = cp" "flag_string fs ''key-path'' = kp" "\<not> flag_bool fs ''force''"
proof -
  let ?fs = "foldl (\<lambda>f (k, v). set_flag k (FString v) f) generate_flags [(''cert-path'', cp), (''key-path'', kp)]"
  have "flag_Parse generate_flags (flag_args [(''cert-path'', cp), (''key-path'', kp)] @ []) = flag_Parse ?fs []"
    by (rule flag_Parse_args) (auto simp: generate_flags_def flag_name_def)
  then have "flag_Parse generate_flags [''-cert-path'', cp, ''-key-path'', kp] = Inr (?fs, [])"
    by (simp add: flag_args_def)
  moreover have "flag_string ?fs ''cert-path'' = cp" "flag_string ?fs ''key-path'' = kp" "\<not> flag_bool ?fs ''force''"
    by (simp_all add: flag_string_def flag_bool_def set_flag_def generate_flags_def)
  ultimately show ?thesis
    by (rule that)
qed

lemma parse_org:
  obtains fs where "flag_Parse generate_flags [''-cert-path'', cp, ''-key-path'', kp, ''-org'', name] = Inr (fs, [])"
    "flag_string fs ''cert-path'' = cp" "flag_string fs ''key-path'' = kp" "flag_string fs ''org'' = name"
    "\<not> flag_bool fs ''force''"
proof -
  let ?kvs = "[(''cert-path'', cp), (''key-path'', kp), (''org'', name)]"
  let ?fs = "foldl (\<lambda>f (k, v). set_flag k (FString v) f) generate_flags ?kvs"
  have "flag_Parse generate_flags (flag_args ?kvs @ []) = flag_Parse ?fs []"
    by (rule flag_Parse_args) (auto simp: generate_flags_def flag_name_def)
  then have "flag_Parse generate_flags [''-cert-path'', cp, ''-key-path'', kp, ''-org'', name] = Inr (?fs, [])"
    by (simp add: flag_args_def)
  moreover have "flag_string ?fs ''cert-path'' = cp" "flag_string ?fs ''key-path'' = kp"
      "flag_string ?fs ''org'' = name" "\<not> flag_bool ?fs ''force''"
    by (simp_all add: flag_string_def flag_bool_def set_flag_def generate_flags_def)
  ultimately show ?thesis
    by (rule that)
qed

lemma parse_path:
  obtains fs where "flag_Parse path_flags [''-cert-path'', cp] = Inr (fs, [])" "flag_string fs ''cert-path'' = cp"
proof -
  let ?fs = "foldl (\<lambda>f (k, v). set_flag k (FString v) f) path_flags [(''cert-path'', cp)]"
  have "flag_Parse path_flags (flag_args [(''cert-path'', cp)] @ []) = flag_Parse ?fs []"
    by (rule flag_Parse_args) (auto simp: path_flags_def flag_name_def)
  then have "flag_Parse path_flags [''-cert-path'', cp] = Inr (?fs, [])"
    by (simp add: flag_args_def)
  moreover have "flag_string ?fs ''cert-path'' = cp"
    by (simp add: flag_string_def set_flag_def path_flags_def)
  ultimately show ?thesis
    by (rule that)
qed

subsection \<open>Properties\<close>

text \<open>What the standard library documents: a parsed certificate keeps the bytes it was parsed from.\<close>

definition raw_law :: "ca_crypto \<Rightarrow> bool" where
  "raw_law cy \<longleftrightarrow> (\<forall>der cert. cyParse cy der = Inr cert \<longrightarrow> xRaw cert = der)"

definition key_law :: "ca_crypto \<Rightarrow> bool" where
  "key_law cy \<longleftrightarrow> (\<forall>key. key_parses cy key)"

lemma NewRoot_parses:
  assumes "raw_law cy" "NewRoot cy orgName = Inr \<lparr>rtCert = Some cert, rtKey = Some key\<rparr>"
  shows "cert_parses cy cert"
proof -
  obtain der where "cyParse cy der = Inr cert"
    using assms(2) by (auto simp: NewRoot_def Let_def split: sum.splits)
  then show ?thesis
    using assms(1) by (auto simp: raw_law_def cert_parses_def)
qed

text \<open>
  C21: A generated root is a root the proxy can intercept with: after \<open>tg-proxy ca generate\<close> has
  succeeded for two paths that name different files, \<open>buildCertStore\<close> on a configuration with these
  paths and interception on loads the root and gives a store with an empty cache.
\<close>

theorem generate_then_intercept:
  assumes "runCAGenerate ae [''-cert-path'', cp, ''-key-path'', kp] w = (None, w')"
    and "cp \<noteq> []" "kp \<noteq> []" "Clean cp \<noteq> Clean kp" "raw_law (aeCrypto ae)" "key_law (aeCrypto ae)"
    and "osFault env (OpenRead cp) = None" "osFault env (OpenRead kp) = None"
    and "tlMITM (cfTLS cfg)" "caCertPath (tlCA (cfTLS cfg)) = cp" "caKeyPath (tlCA (cfTLS cfg)) = kp"
  shows "\<exists>st. buildCertStore defaults (\<lambda>c k. LoadRoot env (aeCrypto ae) c k (woFs w')) (Inr lk) cfg = Inr (Some st)
    \<and> store_ok st \<and> entries st = []"
  using assms(1)
proof (rule generate_cases)
  fix fs rest cp' kp' cert key fs'
  assume f: "flag_Parse generate_flags [''-cert-path'', cp, ''-key-path'', kp] = Inr (fs, rest)"
    and p: "caResolve ae (flag_string fs ''cert-path'') (flag_string fs ''key-path'') = Inr (cp', kp')"
    and r: "NewRoot (aeCrypto ae) (flag_string fs ''org'') = Inr \<lparr>rtCert = Some cert, rtKey = Some key\<rparr>"
    and s: "SaveRoot (aeOs ae) (aeCrypto ae) (Some \<lparr>rtCert = Some cert, rtKey = Some key\<rparr>) cp' kp' (woFs w) = (None, fs')"
    and w': "woFs w' = fs'"
  have paths: "cp' = cp" "kp' = kp"
    using p f assms(2,3) by (auto intro: parse_paths [of cp kp] simp: caResolve_def resolvePaths_def)
  obtain fs2 where "write_pair (aeOs ae) (aeCrypto ae) cert key cp kp fs2 = (None, fs')"
    using SaveRoot_writes [OF s] paths by blast
  then have "holds_cert fs' cp cert \<and> holds_key (aeCrypto ae) fs' kp key"
    using assms(4) by (rule write_pair_done)
  then have "LoadRoot env (aeCrypto ae) cp kp (woFs w') = Inr \<lparr>rtCert = Some cert, rtKey = Some key\<rparr>"
    using NewRoot_parses [OF assms(5) r] assms(6-8) w' by (intro load_pair) (simp_all add: key_law_def)
  moreover obtain st where st: "NewStore (Inr lk) (Some \<lparr>rtCert = Some cert, rtKey = Some key\<rparr>)
      (if tlLeafCacheSize (cfTLS cfg) \<le> 0 then 1024 else tlLeafCacheSize (cfTLS cfg))
      (caOrganization (tlCA (cfTLS cfg))) = Inr st"
    by (simp add: NewStore_def)
  ultimately have "buildCertStore defaults (\<lambda>c k. LoadRoot env (aeCrypto ae) c k (woFs w')) (Inr lk) cfg = Inr (Some st)"
    using assms(2,3,9-11) by (simp add: buildCertStore_def resolvePaths_def Let_def)
  then show ?thesis
    using NewStore_ok [OF st] by blast
qed

definition toy_ca :: "os_env \<Rightarrow> ca_env" where
  "toy_ca env = \<lparr>aeOs = env, aeCrypto = toy_crypto, aeGetenv = (\<lambda>v. []), aeInstaller = unsupportedInstaller ''plan9'',
     aeUsage = (\<lambda>fs e. [])\<rparr>"

lemma toy_root: "NewRoot toy_crypto orgName = Inr \<lparr>rtCert = Some (toy_cert 9), rtKey = Some [7]\<rparr>"
  by (simp add: NewRoot_def toy_crypto_def toy_cert_def randomSerial_def subjectKeyID_def Let_def)

lemma toy_generates:
  "\<exists>w'. runCAGenerate (toy_ca quiet_env) [''-cert-path'', ''c'', ''-key-path'', ''k''] (idle_world toy_fs) = (None, w')"
proof -
  obtain fs' where "SaveRoot quiet_env toy_crypto (Some \<lparr>rtCert = Some (toy_cert 9), rtKey = Some [7]\<rparr>) ''c'' ''k'' toy_fs = (None, fs')"
    using toy_saves by blast
  moreover have "\<not> exists_path quiet_env ''c'' toy_fs" "\<not> exists_path quiet_env ''k'' toy_fs"
    by (simp_all add: exists_path_quiet quiet_env_def toy_paths toy_fs_def)
  moreover obtain fs where "flag_Parse generate_flags [''-cert-path'', ''c'', ''-key-path'', ''k''] = Inr (fs, [])"
      "flag_string fs ''cert-path'' = ''c''" "flag_string fs ''key-path'' = ''k''"
    by (rule parse_paths)
  ultimately show ?thesis
    by (simp add: runCAGenerate_def caResolve_def resolvePaths_def toy_ca_def toy_root idle_world_def)
qed

theorem generate_then_intercept_witness:
  "\<exists>w' st. runCAGenerate (toy_ca quiet_env) [''-cert-path'', ''c'', ''-key-path'', ''k''] (idle_world toy_fs) = (None, w')
    \<and> buildCertStore (Inl ErrHelp) (\<lambda>c k. LoadRoot quiet_env toy_crypto c k (woFs w')) (Inr [5]) mitm_config = Inr (Some st)"
proof -
  obtain w' where w: "runCAGenerate (toy_ca quiet_env) [''-cert-path'', ''c'', ''-key-path'', ''k''] (idle_world toy_fs) = (None, w')"
    using toy_generates by blast
  have "raw_law toy_crypto" "key_law toy_crypto"
    by (auto simp: raw_law_def key_law_def toy_parses toy_crypto_def key_parses_def)
  then have "\<exists>st. buildCertStore (Inl ErrHelp) (\<lambda>c k. LoadRoot quiet_env (aeCrypto (toy_ca quiet_env)) c k (woFs w')) (Inr [5]) mitm_config =
      Inr (Some st) \<and> store_ok st \<and> entries st = []"
    by (intro generate_then_intercept [OF w])
      (simp_all add: toy_paths toy_ca_def quiet_env_def mitm_config_def)
  then show ?thesis
    using w by (auto simp: toy_ca_def)
qed

text \<open>
  What the standard library documents: a parsed certificate has the common name it was created with.
\<close>

definition name_law :: "ca_crypto \<Rightarrow> bool" where
  "name_law cy \<longleftrightarrow> (\<forall>tmpl key der cert. cyCreate cy tmpl key = Inr der \<longrightarrow> cyParse cy der = Inr cert \<longrightarrow>
     xCommonName cert = roCommonName tmpl)"

lemma NewRoot_name:
  assumes "name_law cy" "NewRoot cy name = Inr \<lparr>rtCert = Some cert, rtKey = Some key\<rparr>"
  shows "xCommonName cert = (if name = [] then ''tg-proxy CA'' else name)"
proof -
  let ?name = "if name = [] then ''tg-proxy CA'' else name"
  obtain serial skid priv der where "cyCreate cy (root_for cy ?name serial skid) priv = Inr der"
      "cyParse cy der = Inr cert"
    using assms(2) by (auto simp: NewRoot_def Let_def split: sum.splits)
  then have "xCommonName cert = roCommonName (root_for cy ?name serial skid)"
    using assms(1) unfolding name_law_def by blast
  then show ?thesis
    by (simp add: root_for_def)
qed

text \<open>The command that takes a certificate of a name out of the trust store, on macOS and Windows.\<close>

definition removal :: "string \<Rightarrow> string \<Rightarrow> string list" where
  "removal goos name =
     (if goos = ''darwin''
      then [''security'', ''delete-certificate'', ''-c'', name, ''/Library/Keychains/System.keychain'']
      else [''certutil'', ''-delstore'', ''Root'', name])"

lemma uninstall_removes:
  assumes "goos = ''darwin'' \<or> goos = ''windows''" "loadCertPEM env cy p (woFs w) = Inr cert"
    "xCommonName cert \<noteq> []"
  shows "\<exists>what. inUninstall (DefaultInstaller goos env cy run) p w =
    run_wrapped run what (removal goos (xCommonName cert)) w"
  using assms
  by (auto simp: default_installer_defs newDarwinInstaller_def newWindowsInstaller_def darwin_Uninstall_def
      windows_Uninstall_def removal_def darwinSystemKeychain_def)

text \<open>
  C36: On macOS and Windows, \<open>tg-proxy ca uninstall\<close> removes the root that \<open>tg-proxy ca generate\<close>
  made.  After a generate for two different files and an organization has succeeded, uninstalling with
  the same certificate path runs exactly the command that removes a certificate with the generated
  root's common name (the organization, or the default name) from the system keychain or the Root
  store, and it succeeds exactly when that command does.  The home directory must be known, and the
  library must keep the bytes and the name of a certificate, as documented.
\<close>

theorem uninstall_names_generated:
  assumes "runCAGenerate ae [''-cert-path'', cp, ''-key-path'', kp, ''-org'', name] w = (None, w1)"
    and "cp \<noteq> []" "kp \<noteq> []" "Clean cp \<noteq> Clean kp" "raw_law (aeCrypto ae)" "name_law (aeCrypto ae)"
    and "goos = ''darwin'' \<or> goos = ''windows''"
    and "aeInstaller ae = DefaultInstaller goos (aeOs ae) (aeCrypto ae) run"
    and "osFault (aeOs ae) (OpenRead cp) = None" "DefaultCAPaths (aeGetenv ae) = Inr d"
    and "runCAUninstall ae [''-cert-path'', cp] w1 = (r, w2)"
  shows "woRuns w2 = woRuns w1 @ [removal goos (if name = [] then ''tg-proxy CA'' else name)]
    \<and> (r = None \<longleftrightarrow>
        fst (snd (run (removal goos (if name = [] then ''tg-proxy CA'' else name)) (woFs w1))) = None)"
  using assms(1)
proof (rule generate_cases)
  fix fs rest cp' kp' cert key fs'
  assume f: "flag_Parse generate_flags [''-cert-path'', cp, ''-key-path'', kp, ''-org'', name] = Inr (fs, rest)"
    and p: "caResolve ae (flag_string fs ''cert-path'') (flag_string fs ''key-path'') = Inr (cp', kp')"
    and root: "NewRoot (aeCrypto ae) (flag_string fs ''org'') = Inr \<lparr>rtCert = Some cert, rtKey = Some key\<rparr>"
    and s: "SaveRoot (aeOs ae) (aeCrypto ae) (Some \<lparr>rtCert = Some cert, rtKey = Some key\<rparr>) cp' kp' (woFs w) = (None, fs')"
    and w1: "woFs w1 = fs'"
  have paths: "cp' = cp" "kp' = kp" "flag_string fs ''org'' = name"
    using p f assms(2,3) by (auto intro: parse_org [of cp kp name] simp: caResolve_def resolvePaths_def)
  have cn: "xCommonName cert = (if name = [] then ''tg-proxy CA'' else name)"
    using NewRoot_name [OF assms(6) root] by (simp add: paths)
  obtain fs2 where "write_pair (aeOs ae) (aeCrypto ae) cert key cp kp fs2 = (None, fs')"
    using SaveRoot_writes [OF s] paths by blast
  then have "holds_cert fs' cp cert"
    using write_pair_done assms(4) by blast
  then have load: "loadCertPEM (aeOs ae) (aeCrypto ae) cp (woFs w1) = Inr cert"
    using NewRoot_parses [OF assms(5) root] assms(9) w1 by (intro load_cert) simp_all
  let ?w = "println (inDescribe (aeInstaller ae)) w1"
  have same: "woFs ?w = woFs w1" "woRuns ?w = woRuns w1"
    by (simp_all add: println_def)
  have "xCommonName cert \<noteq> []"
    using cn by simp
  then obtain what where un: "inUninstall (aeInstaller ae) cp ?w =
      run_wrapped run what (removal goos (xCommonName cert)) ?w"
    using uninstall_removes [OF assms(7) load [folded same(1)], of run] unfolding assms(8) by blast
  obtain r0 w0 where r0: "run_wrapped run what (removal goos (xCommonName cert)) ?w = (r0, w0)"
    by fastforce
  have "r = r0 \<and> woRuns w2 = woRuns w0"
  proof (rule parse_path [of cp])
    fix fs3
    assume "flag_Parse path_flags [''-cert-path'', cp] = Inr (fs3, [])" "flag_string fs3 ''cert-path'' = cp"
    then show ?thesis
      using assms(2,10,11) un r0
      by (cases d) (auto simp: runCAUninstall_def run_installer_def caResolve_def resolvePaths_def println_def
          split: option.splits)
  qed
  moreover have "woRuns w0 = woRuns w1 @ [removal goos (xCommonName cert)]"
      "r0 = None \<longleftrightarrow> fst (snd (run (removal goos (xCommonName cert)) (woFs w1))) = None"
    using run_wrapped_simps(1,4) [of run what "removal goos (xCommonName cert)" ?w]
    unfolding r0 same by simp_all
  ultimately show ?thesis
    unfolding cn by simp
qed

text \<open>A library that issues for the name \<open>tg\<close> only, and a machine with a home directory.\<close>

definition tg_crypto :: ca_crypto where
  "tg_crypto = toy_crypto\<lparr>cyCreate := (\<lambda>t k. if roCommonName t = ''tg'' then Inr [9] else Inl (GoErr ''refused'' []))\<rparr>"

definition mac_ca :: ca_env where
  "mac_ca = (toy_ca quiet_env)\<lparr>aeCrypto := tg_crypto, aeGetenv := (\<lambda>v. if v = ''HOME'' then ''/h'' else []),
     aeInstaller := DefaultInstaller ''darwin'' quiet_env tg_crypto obedient\<rparr>"

lemma tg_writes: "write_pair env tg_crypto = write_pair env toy_crypto"
proof -
  have "cyMarshalKey tg_crypto = cyMarshalKey toy_crypto"
    by (simp add: tg_crypto_def)
  then show ?thesis
    by (intro ext) (simp only: write_pair_def)
qed

theorem uninstall_names_generated_witness:
  "\<exists>w1 w2. runCAGenerate mac_ca [''-cert-path'', ''c'', ''-key-path'', ''k'', ''-org'', ''tg''] (idle_world toy_fs) = (None, w1)
    \<and> runCAUninstall mac_ca [''-cert-path'', ''c''] w1 = (None, w2)
    \<and> woRuns w2 = woRuns w1 @ [[''security'', ''delete-certificate'', ''-c'', ''tg'', ''/Library/Keychains/System.keychain'']]"
proof -
  have laws: "raw_law (aeCrypto mac_ca)" "name_law (aeCrypto mac_ca)"
    by (auto simp: raw_law_def name_law_def mac_ca_def tg_crypto_def toy_crypto_def split: if_splits)
  have d: "\<exists>d. DefaultCAPaths (aeGetenv mac_ca) = Inr d"
    by (simp add: mac_ca_def DefaultCAPaths_def UserConfigDir_def Let_def)
  have root: "NewRoot tg_crypto ''tg'' = Inr \<lparr>rtCert = Some (toy_cert 9), rtKey = Some [7]\<rparr>"
    by (simp add: NewRoot_def tg_crypto_def toy_crypto_def toy_cert_def randomSerial_def subjectKeyID_def
        root_for_def Let_def)
  obtain fs' where "SaveRoot quiet_env toy_crypto (Some \<lparr>rtCert = Some (toy_cert 9), rtKey = Some [7]\<rparr>) ''c'' ''k'' toy_fs = (None, fs')"
    using toy_saves by blast
  then have save: "SaveRoot quiet_env tg_crypto (Some \<lparr>rtCert = Some (toy_cert 9), rtKey = Some [7]\<rparr>) ''c'' ''k'' toy_fs = (None, fs')"
    unfolding SaveRoot_def tg_writes .
  obtain fs where fl: "flag_Parse generate_flags [''-cert-path'', ''c'', ''-key-path'', ''k'', ''-org'', ''tg''] = Inr (fs, [])"
      "flag_string fs ''cert-path'' = ''c''" "flag_string fs ''key-path'' = ''k''" "flag_string fs ''org'' = ''tg''"
    by (rule parse_org)
  have "\<not> exists_path quiet_env ''c'' toy_fs" "\<not> exists_path quiet_env ''k'' toy_fs"
    by (simp_all add: exists_path_quiet quiet_env_def toy_paths toy_fs_def)
  then have "\<exists>w1. runCAGenerate mac_ca [''-cert-path'', ''c'', ''-key-path'', ''k'', ''-org'', ''tg''] (idle_world toy_fs) = (None, w1)"
    using root save fl
    by (simp add: runCAGenerate_def caResolve_def resolvePaths_def mac_ca_def toy_ca_def idle_world_def
        del: flag_Parse.simps)
  then obtain w1 where w1: "runCAGenerate mac_ca [''-cert-path'', ''c'', ''-key-path'', ''k'', ''-org'', ''tg''] (idle_world toy_fs) = (None, w1)"
    by blast
  obtain r w2 where w2: "runCAUninstall mac_ca [''-cert-path'', ''c''] w1 = (r, w2)"
    by fastforce
  have "woRuns w2 = woRuns w1 @ [removal ''darwin'' ''tg''] \<and>
      (r = None \<longleftrightarrow> fst (snd (obedient (removal ''darwin'' ''tg'') (woFs w1))) = None)"
    using d uninstall_names_generated [OF w1 _ _ _ laws disjI1 [OF refl] _ _ _ w2, of obedient]
    by (auto simp: toy_paths mac_ca_def toy_ca_def quiet_env_def)
  then show ?thesis
    using w1 w2 by (auto simp: obedient_def removal_def)
qed

text \<open>
  C34: Without \<open>-force\<close>, \<open>tg-proxy ca generate\<close> never overwrites: as long as \<open>stat\<close> works, every file
  and directory that was there before the command is there unchanged after it, whether the command
  succeeds or fails at any point.
\<close>

theorem generate_never_overwrites:
  assumes "flag_Parse generate_flags args = Inr (fs, rest)" "\<not> flag_bool fs ''force''"
    and "\<And>p. osFault (aeOs ae) (StatFile p) = None" "woFs w q = Some n"
  shows "woFs (snd (runCAGenerate ae args w)) q = Some n"
proof (cases "caResolve ae (flag_string fs ''cert-path'') (flag_string fs ''key-path'')")
  case (Inr paths)
  obtain cp kp where p: "paths = (cp, kp)" by fastforce
  show ?thesis
  proof (cases "woFs w (Clean cp) = None \<and> woFs w (Clean kp) = None")
    case True
    then have "snd (SaveRoot (aeOs ae) (aeCrypto ae) r cp kp (woFs w)) q = Some n" for r
      using assms(4) by (intro SaveRoot_keeps) auto
    then show ?thesis
      using assms Inr p True
      by (auto simp: runCAGenerate_def exists_path_quiet println_def split: sum.split prod.split option.split)
        (metis snd_conv)+
  qed (use assms Inr p in \<open>simp add: runCAGenerate_def exists_path_quiet\<close>)
qed (use assms in \<open>simp add: runCAGenerate_def\<close>)

definition half_fs :: file_system where
  "half_fs = [''.'' \<mapsto> DirNode 493, ''k'' \<mapsto> FileNode 384 [1]]"

theorem generate_never_overwrites_witness:
  "woFs (snd (runCAGenerate (toy_ca quiet_env) [''-cert-path'', ''c'', ''-key-path'', ''k''] (idle_world half_fs))) ''k'' =
    Some (FileNode 384 [1])"
proof -
  obtain fs where "flag_Parse generate_flags [''-cert-path'', ''c'', ''-key-path'', ''k''] = Inr (fs, [])"
      "\<not> flag_bool fs ''force''"
    by (rule parse_paths)
  then show ?thesis
    by (rule generate_never_overwrites) (simp_all add: toy_ca_def quiet_env_def idle_world_def half_fs_def)
qed

end
