(* ===== verification/Connect.thy ===== *)
theory Connect
  imports Proxy
begin

text \<open>
  CONNECT requests, \<open>src/internal/proxy/proxy.go\<close> and \<open>mitm.go\<close>: the handlers with the
  connections they open and close, the two copying goroutines of a blind tunnel as a transition
  system, and the dispatch of \<open>ServeHTTP\<close>.  Dialling, hijacking, the write of the status line and
  the TLS handshake are parameters.
\<close>

subsection \<open>Handlers\<close>

record connect_request =
  cqURLHost :: string
  cqHost :: string

record connect_env =
  ceDial :: "string \<Rightarrow> go_error option"
  ceHijacker :: bool
  ceHijack :: "go_error option"
  ceWrite :: "go_error option"
  ceHandshake :: "go_error option"

datatype conn = Upstream | Client

text \<open>\<open>Spliced\<close> is the run of both copying goroutines up to the end of \<open>wg.Wait\<close>.\<close>

datatype net_event = Opened conn | StatusLine | Spliced | Closed conn

datatype connect_outcome =
    Refused int "go_error option"
  | Dropped
  | Tunnel string
  | Intercept string tls_cert

definition connect_target :: "connect_request \<Rightarrow> string" where
  "connect_target r = (if cqURLHost r = [] then cqHost r else cqURLHost r)"

definition handleConnect :: "connect_env \<Rightarrow> connect_request \<Rightarrow> connect_outcome \<times> net_event list" where
  "handleConnect env r =
     (let host = connect_target r in
      case SplitHostPort host of
        Inl err \<Rightarrow> (Refused StatusBadRequest None, [])
      | Inr hp \<Rightarrow>
          (case ceDial env host of
             Some err \<Rightarrow> (Refused StatusBadGateway (Some err), [])
           | None \<Rightarrow>
               if \<not> ceHijacker env
               then (Refused StatusInternalServerError None, [Opened Upstream, Closed Upstream])
               else if ceHijack env \<noteq> None then (Dropped, [Opened Upstream, Closed Upstream])
               else if ceWrite env \<noteq> None
               then (Dropped, [Opened Upstream, Opened Client, Closed Upstream, Closed Client])
               else (Tunnel host, [Opened Upstream, Opened Client, StatusLine, Spliced,
                                   Closed Upstream, Closed Client])))"

definition handleMITMConnect ::
  "(string \<Rightarrow> string) \<Rightarrow> sign_env \<Rightarrow> connect_env \<Rightarrow> connect_request \<Rightarrow> store
    \<Rightarrow> (connect_outcome \<times> net_event list) \<times> store" where
  "handleMITMConnect uni senv env r st =
     (let host = connect_target r in
      case SplitHostPort host of
        Inl err \<Rightarrow> ((Refused StatusBadRequest None, []), st)
      | Inr (sni, port) \<Rightarrow>
          (case LeafFor uni senv sni st of
             (Inl err, st') \<Rightarrow> ((Refused StatusInternalServerError (Some err), []), st')
           | (Inr leaf, st') \<Rightarrow>
               if \<not> ceHijacker env then ((Refused StatusInternalServerError None, []), st')
               else if ceHijack env \<noteq> None then ((Dropped, []), st')
               else if ceWrite env \<noteq> None then ((Dropped, [Opened Client, Closed Client]), st')
               else if ceHandshake env \<noteq> None
               then ((Dropped, [Opened Client, StatusLine, Closed Client]), st')
               else ((Intercept host leaf, [Opened Client, StatusLine]), st')))"

datatype served =
    ServedConnect connect_outcome "net_event list"
  | ServedHTTP "out_request option" reply

definition ServeHTTP ::
  "(string \<Rightarrow> string) \<Rightarrow> (bytes \<Rightarrow> bytes) \<Rightarrow> sign_env \<Rightarrow> network \<Rightarrow> connect_env \<Rightarrow> request \<Rightarrow> connect_request
    \<Rightarrow> server \<Rightarrow> served \<times> server" where
  "ServeHTTP uni nfkc senv nw env r cr s =
     (if rqMethod r = ''CONNECT'' then
        (case svCertStore s of
           Some st \<Rightarrow>
             (case handleMITMConnect uni senv env cr st of
                ((oc, evs), st') \<Rightarrow> (ServedConnect oc evs, s\<lparr>svCertStore := Some st'\<rparr>))
         | None \<Rightarrow> (case handleConnect env cr of (oc, evs) \<Rightarrow> (ServedConnect oc evs, s)))
      else (case handleHTTP uni nfkc nw s r of (sent, rep) \<Rightarrow> (ServedHTTP sent rep, s)))"

subsection \<open>The blind tunnel\<close>












































subsection \<open>The intercepting server\<close>

text \<open>
  The inner server of an interception serves one connection from a one-connection listener.  Its
  \<open>ConnState\<close> hook closes the listener when the connection is closed, which ends the accept loop.  The
  states and their order are those that \<open>net/http\<close> documents; the handler never hijacks.
\<close>

datatype conn_state = StateNew | StateActive | StateIdle | StateClosed

fun next_state :: "conn_state \<Rightarrow> conn_state \<Rightarrow> bool" where
  "next_state StateNew st = (st = StateActive \<or> st = StateClosed)"
| "next_state StateActive st = (st = StateIdle \<or> st = StateClosed)"
| "next_state StateIdle st = (st = StateActive \<or> st = StateClosed)"
| "next_state StateClosed st = False"

definition conn_state_hook :: "conn_state \<Rightarrow> listener \<Rightarrow> listener" where
  "conn_state_hook st l = (if st = StateClosed then listener_Close l else l)"

record inner =
  inListener :: listener
  inConn :: "conn_state option"
  inReturned :: bool

inductive inner_step :: "inner \<Rightarrow> inner \<Rightarrow> bool" where
  accept: "\<not> inReturned i \<Longrightarrow> Accept (inListener i) (Conn c) l \<Longrightarrow>
    inner_step i (i\<lparr>inListener := l, inConn := Some StateNew\<rparr>)"
| eof: "\<not> inReturned i \<Longrightarrow> Accept (inListener i) AcceptEOF l \<Longrightarrow>
    inner_step i (i\<lparr>inListener := l, inReturned := True\<rparr>)"
| change: "inConn i = Some st \<Longrightarrow> next_state st st' \<Longrightarrow>
    inner_step i (i\<lparr>inConn := Some st', inListener := conn_state_hook st' (inListener i)\<rparr>)"

definition inner_start :: "string \<Rightarrow> inner" where
  "inner_start c = \<lparr>inListener = newSingleConnListener c, inConn = None, inReturned = False\<rparr>"

definition inner_inv :: "inner \<Rightarrow> bool" where
  "inner_inv i \<longleftrightarrow> (inConn i = None \<longleftrightarrow> lsAccept (inListener i) \<noteq> None)
     \<and> (lsClosed (inListener i) \<longleftrightarrow> inConn i = Some StateClosed)
     \<and> (inReturned i \<longrightarrow> inConn i = Some StateClosed)"

lemma inner_step_inv: "inner_step i i' \<Longrightarrow> inner_inv i \<Longrightarrow> inner_inv i'"
proof (induction rule: inner_step.induct)
  case (change i st st')
  then show ?case
    by (cases st) (auto simp: inner_inv_def conn_state_hook_def listener_Close_def)
qed (auto simp: inner_inv_def Accept_iff)

lemma inner_reach_inv:
  assumes "inner_step\<^sup>*\<^sup>* (inner_start c) i" shows "inner_inv i"
  using assms
proof (induction rule: rtranclp_induct)
  case base
  show ?case by (simp add: inner_inv_def inner_start_def newSingleConnListener_def)
qed (rule inner_step_inv)

subsection \<open>Leaves served\<close>

text \<open>
  What \<open>crypto/x509\<close> documents of \<open>CreateCertificate\<close> and \<open>ParseCertificate\<close>: the parsed form of a
  certificate has the common name, the DNS names, the addresses (IPv4 ones in four bytes) and the
  public key that it was created with.
\<close>

definition To4 :: "int list \<Rightarrow> int list" where
  "To4 ip = (if length ip = 16 \<and> take 12 ip = replicate 10 0 @ [255, 255] then drop 12 ip else ip)"

definition x509_documented :: "x509_lib \<Rightarrow> bool" where
  "x509_documented lib \<longleftrightarrow>
     (\<forall>rnd tmpl parent pub key der cert.
        xlCreate lib rnd tmpl parent pub key = Inr der \<longrightarrow> xlParse lib der = Inr cert \<longrightarrow>
        xCommonName cert = ltCommonName tmpl \<and> xDNSNames cert = ltDNSNames tmpl \<and>
        xIPAddresses cert = map To4 (ltIPAddresses tmpl) \<and> xPublicKey cert = pub)"

text \<open>The names by which a client that connects to \<open>h\<close> accepts the certificate, and no others.\<close>

definition names_host :: "x509 \<Rightarrow> string \<Rightarrow> bool" where
  "names_host cert h \<longleftrightarrow> xCommonName cert = h \<and>
     (case ParseIP h of
        Some ip \<Rightarrow> xIPAddresses cert = [To4 ip] \<and> xDNSNames cert = []
      | None \<Rightarrow> xDNSNames cert = [h] \<and> xIPAddresses cert = [])"

text \<open>
  The leaf is for \<open>h\<close>, was created with the store's root as parent and the root's key as signer,
  certifies the key it is served with, and is followed in its chain by the root.
\<close>

definition leaf_for :: "x509_lib \<Rightarrow> store \<Rightarrow> string \<Rightarrow> tls_cert \<Rightarrow> bool" where
  "leaf_for lib s h leaf \<longleftrightarrow> names_host (tcLeaf leaf) h \<and>
     tcPrivateKey leaf = leafKey s \<and> xPublicKey (tcLeaf leaf) = xlPublic lib (tcPrivateKey leaf) \<and>
     (\<exists>rnd tmpl der. xlCreate lib rnd tmpl (rootCert s) (xlPublic lib (leafKey s)) (rootKey s) = Inr der \<and>
        xlParse lib der = Inr (tcLeaf leaf) \<and> tcChain leaf = [der, xRaw (rootCert s)])"

lemma leaf_for_identity: "identity s' = identity s \<Longrightarrow> leaf_for lib s' = leaf_for lib s"
  by (intro ext) (simp add: leaf_for_def identity_def)

lemma signLeaf_leaf_for:
  assumes "x509_documented (seLib env)" "signLeaf env s h = Inr leaf"
  shows "leaf_for (seLib env) s h leaf"
proof -
  obtain serial der where sign:
      "xlCreate (seLib env) (seEntropy env) (leaf_for_host env (org s) h serial) (rootCert s)
         (xlPublic (seLib env) (leafKey s)) (rootKey s) = Inr der"
      "xlParse (seLib env) der = Inr (tcLeaf leaf)" "tcChain leaf = [der, xRaw (rootCert s)]"
      "tcPrivateKey leaf = leafKey s"
    using assms(2) by (auto simp: signLeaf_def split: sum.splits)
  then have "xCommonName (tcLeaf leaf) = ltCommonName (leaf_for_host env (org s) h serial)"
      "xDNSNames (tcLeaf leaf) = ltDNSNames (leaf_for_host env (org s) h serial)"
      "xIPAddresses (tcLeaf leaf) = map To4 (ltIPAddresses (leaf_for_host env (org s) h serial))"
      "xPublicKey (tcLeaf leaf) = xlPublic (seLib env) (leafKey s)"
    using assms(1) unfolding x509_documented_def by metis+
  then show ?thesis
    unfolding leaf_for_def names_host_def using sign
    by (auto simp: leaf_for_host_def Let_def split: option.splits)
qed

text \<open>
  The states of a store under concurrent interceptions with one X.509 library: lookups and
  insertions interleave, and what is inserted under a key is what \<open>signLeaf\<close> made for that key.
\<close>

inductive leaf_reach :: "x509_lib \<Rightarrow> store \<Rightarrow> bool" for lib :: x509_lib where
  new: "NewStore genKey rt cap orgName = Inr s \<Longrightarrow> leaf_reach lib s"
| get: "leaf_reach lib s \<Longrightarrow> leaf_reach lib (snd (cacheGet k s))"
| put: "leaf_reach lib s \<Longrightarrow> seLib env = lib \<Longrightarrow> signLeaf env s k = Inr c \<Longrightarrow> leaf_reach lib (cachePut k c s)"

lemma leaf_reach_inv:
  assumes "x509_documented lib"
  shows "leaf_reach lib s \<Longrightarrow> store_ok s \<and> (\<forall>k c. fst (cacheGet k s) = Some c \<longrightarrow> leaf_for lib s k c)"
proof (induction rule: leaf_reach.induct)
  case (new genKey rt cap orgName s)
  then show ?case
    using NewStore_ok [of genKey rt cap orgName s] by (auto simp: leaf_cache.get_result)
next
  case (get s k)
  then show ?case
    using leaf_for_identity [OF cacheGet_identity, of lib k s]
    by (simp add: leaf_cache.ok_get leaf_cache.get_result leaf_cache.get_keeps)
next
  case (put s env k c)
  have "leaf_for lib s j d" if "fst (cacheGet j (cachePut k c s)) = Some d" for j d
  proof (cases "j = k")
    case True
    have "map_of (lru_put (nat (capacity s)) k c (entries s)) k = Some d"
      using that True put.IH by (simp add: leaf_cache.get_result leaf_cache.ok_put leaf_cache.put_refines)
    then have "d = c"
      by (cases "nat (capacity s)") (auto simp: lru_put_def map_of_touch split: if_splits)
    then show ?thesis using signLeaf_leaf_for [of env s k c] assms put.hyps True by simp
  next
    case False
    then show ?thesis
      using leaf_cache.get_put_other [OF _ False that] put.IH by blast
  qed
  then show ?case
    using put.IH leaf_for_identity [OF cachePut_identity, of lib k c s]
    by (simp add: leaf_cache.ok_put)
qed

lemma LeafFor_leaf_for:
  assumes "x509_documented lib" "seLib env = lib" "leaf_reach lib s"
    "LeafFor uni env host s = (Inr cert, s')"
  shows "leaf_for lib s (normalizeHost uni host) cert \<and> identity s' = identity s \<and> leaf_reach lib s'"
proof (rule LeafFor_cases [of uni host s env])
  fix c
  let ?s = "snd (cacheGet (normalizeHost uni host) s)"
  assume sign: "signLeaf env s (normalizeHost uni host) = Inr c"
    "LeafFor uni env host s = (Inr c, cachePut (normalizeHost uni host) c ?s)"
  then have "signLeaf env ?s (normalizeHost uni host) = Inr c"
    using signLeaf_identity [OF cacheGet_identity] by metis
  then have "leaf_reach lib (cachePut (normalizeHost uni host) c ?s)"
    using leaf_reach.put [OF leaf_reach.get [OF assms(3)] assms(2)] by blast
  then show ?thesis
    using sign assms(1,2,4) signLeaf_leaf_for [of env s] by auto
qed (use assms leaf_reach_inv [OF assms(1,3)] leaf_reach.get in auto)

subsection \<open>Properties\<close>



text \<open>
  C24: No CONNECT leaks a connection: whatever fails on the way, every connection the handler opened
  has been closed once when it returns, except the client's connection of an interception, which
  has been handed to the inner server; and with a certificate store nothing is tunnelled blindly.
\<close>

theorem connect_releases:
  assumes "ServeHTTP uni nfkc senv nw env r cr s = (ServedConnect oc evs, s')"
  shows "count_list evs (Opened c) = count_list evs (Closed c) + (if c = Client \<and> (\<exists>host leaf. oc = Intercept host leaf) then 1 else 0)
    \<and> count_list evs (Opened c) \<le> 1
    \<and> (svCertStore s \<noteq> None \<longrightarrow> Spliced \<notin> set evs \<and> (\<nexists>host. oc = Tunnel host))"
proof (cases "svCertStore s")
  case None
  then have "handleConnect env cr = (oc, evs)"
    using assms by (auto simp: ServeHTTP_def split: if_splits prod.splits)
  then show ?thesis
    using None by (cases c) (auto simp: handleConnect_def Let_def split: sum.splits option.splits if_splits)
next
  case (Some st)
  then obtain st' where "handleMITMConnect uni senv env cr st = ((oc, evs), st')"
    using assms by (auto simp: ServeHTTP_def split: if_splits prod.splits)
  then show ?thesis
    by (cases c) (auto simp: handleMITMConnect_def Let_def split: sum.splits prod.splits if_splits)
qed

definition open_env :: connect_env where
  "open_env = \<lparr>ceDial = (\<lambda>h. None), ceHijacker = True, ceHijack = None, ceWrite = Some (GoErr ''broken pipe'' []),
     ceHandshake = None\<rparr>"

theorem connect_releases_witness:
  "\<exists>oc evs s'. ServeHTTP id id (sample_env 0) sample_network open_env ((sample_request [])\<lparr>rqMethod := ''CONNECT''\<rparr>)
      \<lparr>cqURLHost = ''h:1'', cqHost = []\<rparr> sample_server = (ServedConnect oc evs, s')
    \<and> count_list evs (Opened Upstream) = 1 \<and> count_list evs (Closed Upstream) = 1"
proof -
  have "connect_target \<lparr>cqURLHost = ''h:1'', cqHost = []\<rparr> = ''h:1''" "SplitHostPort ''h:1'' = Inr (''h'', ''1'')"
    by code_simp+
  then have s: "ServeHTTP id id (sample_env 0) sample_network open_env ((sample_request [])\<lparr>rqMethod := ''CONNECT''\<rparr>)
      \<lparr>cqURLHost = ''h:1'', cqHost = []\<rparr> sample_server =
      (ServedConnect Dropped [Opened Upstream, Opened Client, Closed Upstream, Closed Client], sample_server)"
    by (simp add: ServeHTTP_def handleConnect_def open_env_def sample_server_def)
  from connect_releases [OF this, of Upstream] show ?thesis
    using s by auto
qed

text \<open>
  C10: An intercepted client is given a certificate for the host it asked for.  Let the X.509 library
  keep names and keys as documented.  In every state that concurrent interceptions can bring a store
  to, the leaf with which a CONNECT is intercepted names exactly the normalized host of the CONNECT
  target (as an address or as a DNS name), was created with the store's root certificate as parent
  and the root's key as signer, certifies the private key it is served with and is followed by the
  root; the root and keys of the store stay what they were.
\<close>

theorem intercept_right_leaf:
  assumes "x509_documented (seLib senv)" "svCertStore s = Some st" "leaf_reach (seLib senv) st"
    and "ServeHTTP uni nfkc senv nw env r cr s = (ServedConnect (Intercept host leaf) evs, s')"
  shows "\<exists>sni port st'. host = connect_target cr \<and> SplitHostPort host = Inr (sni, port)
    \<and> leaf_for (seLib senv) st (normalizeHost uni sni) leaf
    \<and> svCertStore s' = Some st' \<and> identity st' = identity st \<and> leaf_reach (seLib senv) st'"
proof -
  obtain st' where m: "handleMITMConnect uni senv env cr st = ((Intercept host leaf, evs), st')"
      "svCertStore s' = Some st'"
    using assms(2,4) by (auto simp: ServeHTTP_def split: if_splits prod.splits)
  then obtain sni port where h: "host = connect_target cr" "SplitHostPort host = Inr (sni, port)"
      "LeafFor uni senv sni st = (Inr leaf, st')"
    by (auto simp: handleMITMConnect_def Let_def split: sum.splits prod.splits if_splits)
  then show ?thesis
    using LeafFor_leaf_for [OF assms(1) refl assms(3)] m(2) by blast
qed

lemma sample_lib_documented: "x509_documented (sample_x509_lib now)"
  by (auto simp: x509_documented_def sample_x509_lib_def sample_x509_def split: if_splits)

theorem intercept_right_leaf_witness:
  "\<exists>leaf evs s'. ServeHTTP id id (sample_env 0) sample_network (open_env\<lparr>ceWrite := None\<rparr>)
      ((sample_request [])\<lparr>rqMethod := ''CONNECT''\<rparr>) \<lparr>cqURLHost = ''h:1'', cqHost = []\<rparr>
      (sample_server\<lparr>svCertStore := Some sample_store\<rparr>) = (ServedConnect (Intercept ''h:1'' leaf) evs, s')
    \<and> leaf_for (sample_x509_lib 0) sample_store ''h'' leaf"
proof -
  have h: "connect_target \<lparr>cqURLHost = ''h:1'', cqHost = []\<rparr> = ''h:1''" "SplitHostPort ''h:1'' = Inr (''h'', ''1'')"
      "normalizeHost id ''h'' = ''h''"
    by code_simp+
  then have s: "ServeHTTP id id (sample_env 0) sample_network (open_env\<lparr>ceWrite := None\<rparr>)
      ((sample_request [])\<lparr>rqMethod := ''CONNECT''\<rparr>) \<lparr>cqURLHost = ''h:1'', cqHost = []\<rparr>
      (sample_server\<lparr>svCertStore := Some sample_store\<rparr>) =
      (ServedConnect (Intercept ''h:1'' sample_leaf) [Opened Client, StatusLine],
       sample_server\<lparr>svCertStore := Some (cachePut ''h'' sample_leaf sample_store)\<rparr>)"
    by (simp add: ServeHTTP_def handleMITMConnect_def open_env_def sample_LeafFor)
  have lib: "seLib (sample_env 0) = sample_x509_lib 0"
    by (simp add: sample_env_def)
  from intercept_right_leaf [OF _ _ _ s, of sample_store] show ?thesis
    unfolding lib using s h leaf_reach.new [OF sample_store_new] sample_lib_documented by auto
qed

text \<open>
  C33: An interception lasts exactly as long as its connection.  In every run the inner server takes
  the connection at most once, does not return before the connection is closed, never gets stuck
  while it is open, and once it is closed can return and do nothing else.
\<close>

theorem intercept_ends_with_connection:
  assumes "inner_step\<^sup>*\<^sup>* (inner_start c) i"
  shows "(inReturned i \<longrightarrow> inConn i = Some StateClosed)
    \<and> (\<not> inReturned i \<longrightarrow> (\<exists>i'. inner_step i i'))
    \<and> (inConn i = Some StateClosed \<longrightarrow> (\<forall>i'. inner_step i i' \<longrightarrow> \<not> inReturned i \<and> i' = i\<lparr>inReturned := True\<rparr>))
    \<and> (inConn i \<noteq> None \<longrightarrow> (\<forall>i'. inner_step i i' \<longrightarrow> inConn i' \<noteq> Some StateNew))"
proof -
  have inv: "inner_inv i"
    using assms by (rule inner_reach_inv)
  have "\<exists>i'. inner_step i i'" if "\<not> inReturned i"
  proof (cases "inConn i")
    case None
    then obtain c where "lsAccept (inListener i) = Some c"
      using inv by (auto simp: inner_inv_def)
    then show ?thesis
      using inner_step.accept [OF that] Accept.take by blast
  next
    case (Some st)
    show ?thesis
    proof (cases "st = StateClosed")
      case True
      then have "Accept (inListener i) AcceptEOF (inListener i)"
        using inv Some by (intro Accept.closed) (simp add: inner_inv_def)
      then show ?thesis
        using inner_step.eof [OF that] by blast
    next
      case False
      then have "next_state st StateClosed" by (cases st) auto
      then show ?thesis
        using inner_step.change [OF Some] by blast
    qed
  qed
  moreover have "\<not> inReturned i \<and> i' = i\<lparr>inReturned := True\<rparr>"
    if "inConn i = Some StateClosed" "inner_step i i'" for i'
    using that(2,1) inv by (cases rule: inner_step.cases) (auto simp: inner_inv_def Accept_iff)
  moreover have "inConn i' \<noteq> Some StateNew" if "inConn i \<noteq> None" "inner_step i i'" for i'
    using that(2,1) inv
  proof (cases rule: inner_step.cases)
    case (change st st')
    then show ?thesis by (cases st) auto
  next
    case (eof l)
    then show ?thesis using inv that(1) by (auto simp: inner_inv_def Accept_iff)
  qed (auto simp: inner_inv_def Accept_iff)
  ultimately show ?thesis
    using inv by (auto simp: inner_inv_def)
qed

theorem intercept_ends_with_connection_witness:
  "\<exists>i. inner_step\<^sup>*\<^sup>* (inner_start ''c'') i \<and> inConn i = Some StateNew \<and> \<not> inReturned i \<and> (\<exists>i'. inner_step i i')"
proof -
  let ?i = "(inner_start ''c'')\<lparr>inListener := \<lparr>lsAccept = None, lsClosed = False\<rparr>, inConn := Some StateNew\<rparr>"
  have "Accept (inListener (inner_start ''c'')) (Conn ''c'') \<lparr>lsAccept = None, lsClosed = False\<rparr>"
    by (simp add: Accept_iff inner_start_def newSingleConnListener_def)
  then have "inner_step (inner_start ''c'') ?i"
    by (intro inner_step.accept) (simp_all add: inner_start_def)
  then have r: "inner_step\<^sup>*\<^sup>* (inner_start ''c'') ?i"
    by (rule r_into_rtranclp)
  from intercept_ends_with_connection [OF this] show ?thesis
    using r by (intro exI [of _ ?i]) (simp add: inner_start_def)
qed

end
