(* ===== verification/Server.thy ===== *)
theory Server
  imports Connect Config
begin

text \<open>
  The life of the proxy server, \<open>Options\<close>, \<open>New\<close>, \<open>Start\<close> and \<open>Shutdown\<close> of
  \<open>src/internal/proxy/proxy.go\<close>.  Listening and the loop of \<open>http.Server\<close> are parameters.
\<close>

subsection \<open>Construction\<close>

datatype log_format = TextHandler | JSONHandler

record logger =
  loFormat :: log_format
  loLevel :: log_level

text \<open>All options: those the handlers read, and those that only \<open>New\<close> and \<open>Start\<close> use.\<close>

record options = server +
  opAddr :: string
  opLogger :: "logger option"
  opReadTimeout :: int
  opWriteTimeout :: int
  opIdleTimeout :: int
  opUpstreamRootCAs :: "bytes list option"
  opUpstreamInsecure :: bool

record tls_client_config =
  tkRootCAs :: "bytes list option"
  tkInsecureSkipVerify :: bool
  tkMinVersion :: int

definition VersionTLS12 :: int where "VersionTLS12 = 0x0303"

record transport =
  trProxy :: "string option"
  trDialTimeout :: int
  trKeepAlive :: int
  trForceAttemptHTTP2 :: bool
  trMaxIdleConns :: int
  trIdleConnTimeout :: int
  trTLSHandshakeTimeout :: int
  trExpectContinueTimeout :: int
  trTLS :: tls_client_config

datatype redirect_policy = FollowRedirects | UseLastResponse

record http_client =
  hcTransport :: transport
  hcCheckRedirect :: redirect_policy

record http_server =
  hsAddr :: string
  hsReadTimeout :: int
  hsWriteTimeout :: int
  hsIdleTimeout :: int

record proxy_server =
  psOpts :: options
  psServer :: http_server
  psClient :: http_client

definition new_transport :: "options \<Rightarrow> transport" where
  "new_transport opts =
     \<lparr>trProxy = None, trDialTimeout = 30 * Second, trKeepAlive = 30 * Second, trForceAttemptHTTP2 = True,
      trMaxIdleConns = 100, trIdleConnTimeout = 90 * Second, trTLSHandshakeTimeout = 10 * Second,
      trExpectContinueTimeout = 1 * Second,
      trTLS = \<lparr>tkRootCAs = opUpstreamRootCAs opts, tkInsecureSkipVerify = opUpstreamInsecure opts,
               tkMinVersion = VersionTLS12\<rparr>\<rparr>"

definition proxy_New :: "logger \<Rightarrow> options \<Rightarrow> proxy_server" where
  "proxy_New slogDefault opts =
     (let opts1 = (if opLogger opts = None then opts\<lparr>opLogger := Some slogDefault\<rparr> else opts);
          opts2 = (if svMaxBody opts1 \<le> 0 then opts1\<lparr>svMaxBody := 10 * 1024 * 1024\<rparr> else opts1) in
      \<lparr>psOpts = opts2,
       psServer = \<lparr>hsAddr = opAddr opts2, hsReadTimeout = opReadTimeout opts2,
                   hsWriteTimeout = opWriteTimeout opts2, hsIdleTimeout = opIdleTimeout opts2\<rparr>,
       psClient = \<lparr>hcTransport = new_transport opts2, hcCheckRedirect = UseLastResponse\<rparr>\<rparr>)"

definition server_Addr :: "proxy_server \<Rightarrow> string" where
  "server_Addr s = hsAddr (psServer s)"

text \<open>The inner server of an interception has the timeouts of the outer one.\<close>

definition inner_server :: "proxy_server \<Rightarrow> http_server" where
  "inner_server s = \<lparr>hsAddr = [], hsReadTimeout = opReadTimeout (psOpts s),
     hsWriteTimeout = opWriteTimeout (psOpts s), hsIdleTimeout = opIdleTimeout (psOpts s)\<rparr>"

text \<open>The part of a server that its handlers read.\<close>

definition handler_of :: "proxy_server \<Rightarrow> server" where
  "handler_of s = server.truncate (psOpts s)"

subsection \<open>Serving\<close>

definition ErrServerClosed :: go_error where
  "ErrServerClosed = Sentinel ''http: Server closed''"

text \<open>
  The channel between the serving goroutine and \<open>Start\<close>: empty while \<open>Serve\<close> runs, then holding an
  error or closed.
\<close>

datatype err_chan = ChanEmpty | ChanHolds go_error | ChanClosed

definition serve_goroutine :: "go_error option \<Rightarrow> err_chan" where
  "serve_goroutine err =
     (case err of Some e \<Rightarrow> if errors_Is e ErrServerClosed then ChanClosed else ChanHolds e | None \<Rightarrow> ChanClosed)"

record serving =
  sgServer :: proxy_server
  sgChan :: err_chan
  sgDone :: bool
  sgStopped :: bool
  sgResult :: "go_error option option"

definition shutdown_timeout :: int where
  "shutdown_timeout = 10 * Second"

text \<open>
  One run of \<open>Start\<close> after the listener is bound.  \<open>serve\<close>: the goroutine's \<open>Serve\<close> returns, with
  \<open>ErrServerClosed\<close> exactly when the server has been stopped.  \<open>cancel\<close>: the context ends.
  \<open>shutdown\<close>: another goroutine calls the server's \<open>Shutdown\<close>.  The select takes whichever case is
  ready; after a cancellation the result is that of \<open>http.Server.Shutdown\<close>, the parameter \<open>stop\<close> of
  the time it is given.
\<close>

inductive start_step :: "(int \<Rightarrow> go_error option) \<Rightarrow> serving \<Rightarrow> serving \<Rightarrow> bool"
  for stop :: "int \<Rightarrow> go_error option" where
  serve: "sgChan g = ChanEmpty \<Longrightarrow> (errors_Is err ErrServerClosed \<longleftrightarrow> sgStopped g) \<Longrightarrow>
    start_step stop g (g\<lparr>sgChan := serve_goroutine (Some err)\<rparr>)"
| shutdown: "start_step stop g (g\<lparr>sgStopped := True\<rparr>)"
| cancel: "start_step stop g (g\<lparr>sgDone := True\<rparr>)"
| select_done: "sgResult g = None \<Longrightarrow> sgDone g \<Longrightarrow>
    start_step stop g (g\<lparr>sgStopped := True, sgResult := Some (stop shutdown_timeout)\<rparr>)"
| select_err: "sgResult g = None \<Longrightarrow> sgChan g = ChanHolds e \<Longrightarrow> start_step stop g (g\<lparr>sgResult := Some (Some e)\<rparr>)"
| select_closed: "sgResult g = None \<Longrightarrow> sgChan g = ChanClosed \<Longrightarrow> start_step stop g (g\<lparr>sgResult := Some None\<rparr>)"

definition bound :: "string \<Rightarrow> proxy_server \<Rightarrow> serving" where
  "bound addr s = \<lparr>sgServer = s\<lparr>psServer := (psServer s)\<lparr>hsAddr := addr\<rparr>\<rparr>, sgChan = ChanEmpty, sgDone = False,
     sgStopped = False, sgResult = None\<rparr>"

inductive Start :: "(string \<Rightarrow> go_error + string) \<Rightarrow> (int \<Rightarrow> go_error option) \<Rightarrow> proxy_server \<Rightarrow> go_error option \<Rightarrow> bool"
  for listen :: "string \<Rightarrow> go_error + string" and stop :: "int \<Rightarrow> go_error option" where
  refused: "listen (opAddr (psOpts s)) = Inl err \<Longrightarrow>
    Start listen stop s (Some (WrapErr (''proxy: listen '' @ opAddr (psOpts s) @ '': %w'') err))"
| serves: "listen (opAddr (psOpts s)) = Inr addr \<Longrightarrow> (start_step stop)\<^sup>*\<^sup>* (bound addr s) g \<Longrightarrow>
    sgResult g = Some res \<Longrightarrow> Start listen stop s res"

subsection \<open>Lemmas\<close>

definition start_inv :: "(int \<Rightarrow> go_error option) \<Rightarrow> serving \<Rightarrow> bool" where
  "start_inv stop g \<longleftrightarrow>
     (\<forall>e. sgChan g = ChanHolds e \<longrightarrow> \<not> errors_Is e ErrServerClosed)
     \<and> (\<forall>res. sgResult g = Some res \<longrightarrow>
          (sgDone g \<and> sgStopped g \<and> res = stop shutdown_timeout) \<or>
          (sgChan g = ChanClosed \<and> res = None) \<or>
          (\<exists>e. sgChan g = ChanHolds e \<and> res = Some e))"

lemma start_step_inv: "start_step stop g g' \<Longrightarrow> start_inv stop g \<Longrightarrow> start_inv stop g'"
  by (induction rule: start_step.induct) (auto simp: start_inv_def serve_goroutine_def)

lemma start_reach_inv:
  assumes "(start_step stop)\<^sup>*\<^sup>* (bound addr s) g" shows "start_inv stop g"
  using assms
proof (induction rule: rtranclp_induct)
  case base
  show ?case by (simp add: start_inv_def bound_def)
qed (rule start_step_inv)

lemma serve_step:
  "(start_step stop)\<^sup>*\<^sup>* (bound addr s)
     ((bound addr s)\<lparr>sgStopped := errors_Is e ErrServerClosed, sgChan := serve_goroutine (Some e)\<rparr>)"
proof -
  let ?g = "(bound addr s)\<lparr>sgStopped := errors_Is e ErrServerClosed\<rparr>"
  have "start_step stop ?g (?g\<lparr>sgChan := serve_goroutine (Some e)\<rparr>)"
    by (rule start_step.serve) (simp_all add: bound_def)
  moreover have "(start_step stop)\<^sup>*\<^sup>* (bound addr s) ?g"
    using start_step.shutdown [of stop "bound addr s"]
    by (cases "errors_Is e ErrServerClosed") (auto simp: bound_def)
  ultimately show ?thesis
    by simp
qed

text \<open>A way to every result: the goroutine returns and the select takes its channel, or the context is cancelled.\<close>

lemma start_serve_result:
  assumes "listen (opAddr (psOpts s)) = Inr addr"
  shows "Start listen stop s (if errors_Is e ErrServerClosed then None else Some e)"
proof -
  let ?g = "(bound addr s)\<lparr>sgStopped := errors_Is e ErrServerClosed, sgChan := serve_goroutine (Some e)\<rparr>"
    and ?res = "if errors_Is e ErrServerClosed then None else Some e"
  have "start_step stop ?g (?g\<lparr>sgResult := Some ?res\<rparr>)"
    using start_step.select_closed [of ?g stop] start_step.select_err [of ?g e stop]
    by (cases "errors_Is e ErrServerClosed") (simp_all add: serve_goroutine_def bound_def)
  with serve_step [of stop addr s e]
  have "(start_step stop)\<^sup>*\<^sup>* (bound addr s) (?g\<lparr>sgResult := Some ?res\<rparr>)"
    by (rule rtranclp.rtrancl_into_rtrancl)
  then show ?thesis
    by (rule Start.serves [where listen = listen, OF assms]) simp
qed

lemma start_cancel_result:
  assumes "listen (opAddr (psOpts s)) = Inr addr"
  shows "Start listen stop s (stop shutdown_timeout)"
proof -
  let ?g = "(bound addr s)\<lparr>sgDone := True\<rparr>"
  have "start_step stop ?g (?g\<lparr>sgStopped := True, sgResult := Some (stop shutdown_timeout)\<rparr>)"
    by (rule start_step.select_done) (simp_all add: bound_def)
  then have "(start_step stop)\<^sup>*\<^sup>* (bound addr s) (?g\<lparr>sgStopped := True, sgResult := Some (stop shutdown_timeout)\<rparr>)"
    using start_step.cancel by (meson converse_rtranclp_into_rtranclp r_into_rtranclp)
  then show ?thesis
    by (rule Start.serves [where listen = listen, OF assms]) simp
qed

lemma New_handler:
  "handler_of (proxy_New lg opts) =
    \<lparr>svPipeline = svPipeline opts, svMaxBody = (if svMaxBody opts \<le> 0 then 10 * 1024 * 1024 else svMaxBody opts),
     svStreamWindow = svStreamWindow opts, svCertStore = svCertStore opts\<rparr>"
  by (simp add: handler_of_def proxy_New_def Let_def server.defs)

subsection \<open>Properties\<close>

text \<open>
  How serving ends.  Over all orders in which the context is cancelled and \<open>Serve\<close> returns, the
  results of \<open>Start\<close> are exactly: the wrapped error of a listener that cannot be bound; no error;
  an error of \<open>Serve\<close> that is not \<open>ErrServerClosed\<close>; and the result of a shutdown that is given ten
  seconds.  So the closing of the server is never reported as an error.
\<close>

lemma start_outcomes:
  "Start listen stop s res \<longleftrightarrow>
    (case listen (opAddr (psOpts s)) of
       Inl err \<Rightarrow> res = Some (WrapErr (''proxy: listen '' @ opAddr (psOpts s) @ '': %w'') err)
     | Inr addr \<Rightarrow> res = None \<or> (\<exists>e. res = Some e \<and> \<not> errors_Is e ErrServerClosed) \<or> res = stop (10 * Second))"
proof (cases "listen (opAddr (psOpts s))")
  case (Inl err)
  then show ?thesis using Start.refused [of listen s err stop] by (auto elim: Start.cases)
next
  case (Inr addr)
  have "res = None \<or> (\<exists>e. res = Some e \<and> \<not> errors_Is e ErrServerClosed) \<or> res = stop (10 * Second)"
    if "Start listen stop s res"
    using that
  proof (cases rule: Start.cases)
    case (serves addr g)
    then show ?thesis
      using start_reach_inv [OF serves(2)] by (auto simp: start_inv_def shutdown_timeout_def)
  qed (simp add: Inr)
  moreover have "Start listen stop s None"
    using start_serve_result [of listen s addr stop ErrServerClosed] Inr by (simp add: ErrServerClosed_def)
  moreover have "Start listen stop s (Some e)" if "\<not> errors_Is e ErrServerClosed" for e
    using start_serve_result [of listen s addr stop e] that Inr by simp
  moreover have "Start listen stop s (stop (10 * Second))"
    using start_cancel_result [of listen s addr stop] Inr by (simp add: shutdown_timeout_def)
  ultimately show ?thesis
    using Inr by auto
qed

end
