(* ===== verification/Main_Run.thy ===== *)
theory Main_Run
  imports Ca_Cmd Server
begin

text \<open>
  The program, \<open>src/cmd/tg-proxy/main.go\<close>: \<open>main\<close>, \<open>run\<close> and what \<open>run\<close> calls before it serves.
  The YAML decoder, the plugin library, the crypto library, the file system and the serving itself
  (\<open>Start\<close>) are parameters.
\<close>

subsection \<open>Environment and result\<close>

record run_env =
  reUni :: "string \<Rightarrow> string"
  reOs :: os_env
  reFs :: file_system
  reGetenv :: "string \<Rightarrow> string"
  reDecode :: "bytes \<Rightarrow> config \<Rightarrow> go_error + config"
  reLib :: plugin_lib
  reCrypto :: ca_crypto
  reLeafKey :: "go_error + private_key"
  reVersion :: string
  reBuildInfo :: "string option"
  reSlogDefault :: logger
  reStart :: "proxy_server \<Rightarrow> go_error option"

text \<open>
  A run ends by returning from \<open>run\<close> or in \<open>os.Exit\<close> inside \<open>flag.Parse\<close>.  The result also has what
  was printed, the plugin host after the deferred calls, and the server if one was started.
\<close>

datatype run_exit = Exits int | Returns "go_error option"

record run_result =
  rrExit :: run_exit
  rrOut :: "string list"
  rrHost :: "host option"
  rrServed :: "proxy_server option"

subsection \<open>Operations\<close>

definition resolvedVersion :: "string \<Rightarrow> string option \<Rightarrow> string" where
  "resolvedVersion version info =
     (if version \<noteq> ''dev'' then version
      else case info of
             None \<Rightarrow> version
           | Some v \<Rightarrow> if v \<noteq> [] \<and> v \<noteq> ''(devel)'' then v else version)"

definition loadConfig :: "run_env \<Rightarrow> string \<Rightarrow> go_error + config" where
  "loadConfig re path =
     (if path = [] then Inr Default
      else Load (reUni re) (\<lambda>p. ReadFile (reOs re) p (reFs re)) (reDecode re) path)"

definition buildLogger :: "(string \<Rightarrow> string) \<Rightarrow> log_config \<Rightarrow> go_error + logger" where
  "buildLogger uni c =
     (case ParseLogLevel uni (lcLevel c) of
        Inl err \<Rightarrow> Inl err
      | Inr level \<Rightarrow>
          Inr \<lparr>loFormat = (if lcFormat c = ''json'' then JSONHandler else TextHandler), loLevel = level\<rparr>)"

definition server_options :: "config \<Rightarrow> logger \<Rightarrow> scanner list \<Rightarrow> redactor \<Rightarrow> store option \<Rightarrow> options" where
  "server_options cfg lg scs red certStore =
     \<lparr>svPipeline = pipeline_New scs (Some red), svMaxBody = lmMaxBodySize (cfLimits cfg),
      svStreamWindow = smWindowBytes (cfStreaming cfg), svCertStore = certStore,
      opAddr = cfListen cfg, opLogger = Some lg, opReadTimeout = ReadTimeout (cfLimits cfg),
      opWriteTimeout = WriteTimeout (cfLimits cfg), opIdleTimeout = IdleTimeout (cfLimits cfg),
      opUpstreamRootCAs = None, opUpstreamInsecure = tlUpstreamInsecure (cfTLS cfg)\<rparr>"

text \<open>The part of \<open>run\<close> that owns the plugin host, up to the deferred shutdown.\<close>

definition run_host ::
  "run_env \<Rightarrow> config \<Rightarrow> logger \<Rightarrow> host \<Rightarrow> (go_error option \<times> proxy_server option) \<times> host" where
  "run_host re cfg lg h =
     (case buildScanners (reLib re) cfg h of
        (Inl err, h1) \<Rightarrow> ((Some err, None), h1)
      | (Inr scs, h1) \<Rightarrow>
          (case buildRedactor (reLib re) cfg h1 of
             (Inl err, h2) \<Rightarrow> ((Some err, None), h2)
           | (Inr red, h2) \<Rightarrow>
               (case buildCertStore (DefaultCAPaths (reGetenv re))
                       (\<lambda>c k. LoadRoot (reOs re) (reCrypto re) c k (reFs re)) (reLeafKey re) cfg of
                  Inl err \<Rightarrow> ((Some err, None), h2)
                | Inr certStore \<Rightarrow>
                    let srv = proxy_New (reSlogDefault re) (server_options cfg lg scs red certStore) in
                    ((reStart re srv, Some srv), h2))))"

definition run_flags :: flag_set where
  "run_flags = [(''config'', FString []), (''version'', FBool False)]"

definition run :: "run_env \<Rightarrow> string list \<Rightarrow> run_result" where
  "run re args =
     (case flag_Parse run_flags args of
        Inl err \<Rightarrow> \<lparr>rrExit = Exits (if err = ErrHelp then 0 else 2), rrOut = [], rrHost = None, rrServed = None\<rparr>
      | Inr (fs, rest) \<Rightarrow>
          if flag_bool fs ''version''
          then \<lparr>rrExit = Returns None, rrOut = [''tg-proxy '' @ resolvedVersion (reVersion re) (reBuildInfo re)],
                rrHost = None, rrServed = None\<rparr>
          else (case loadConfig re (flag_string fs ''config'') of
                  Inl err \<Rightarrow> \<lparr>rrExit = Returns (Some err), rrOut = [], rrHost = None, rrServed = None\<rparr>
                | Inr cfg \<Rightarrow>
                    (case buildLogger (reUni re) (cfLog cfg) of
                       Inl err \<Rightarrow> \<lparr>rrExit = Returns (Some err), rrOut = [], rrHost = None, rrServed = None\<rparr>
                     | Inr lg \<Rightarrow>
                         (case run_host re cfg lg NewHost of
                            ((res, srv), h) \<Rightarrow>
                              \<lparr>rrExit = Returns res, rrOut = [], rrHost = Some (Shutdown h), rrServed = srv\<rparr>))))"

text \<open>The exit status: with an error \<open>main\<close> exits with 1.  What it prints on standard error is not modelled.\<close>

definition exit_status :: "go_error option \<Rightarrow> int" where
  "exit_status err = (case err of None \<Rightarrow> 0 | Some e \<Rightarrow> 1)"

definition main :: "run_env \<Rightarrow> ca_env \<Rightarrow> string list \<Rightarrow> world \<Rightarrow> int \<times> world" where
  "main re ae osArgs w =
     (if length osArgs > 1 \<and> osArgs ! 1 = ''ca'' then
        (case runCA ae (drop 2 osArgs) w of (err, w') \<Rightarrow> (exit_status err, w'))
      else
        let r = run re (drop 1 osArgs) in
        (case rrExit r of Exits n \<Rightarrow> n | Returns err \<Rightarrow> exit_status err, w\<lparr>woOut := woOut w @ rrOut r\<rparr>))"

subsection \<open>Lemmas\<close>

lemma select_scanners_reach:
  "host_reach lib h \<Longrightarrow> host_reach lib (snd (select_scanners lib reg scs out h))"
proof (induction scs arbitrary: out h)
  case (Cons sc scs)
  show ?case
  proof (cases "scfEnabled sc \<and> scfExternal sc \<noteq> None")
    case True
    then obtain ext where ext: "scfExternal sc = Some ext" by auto
    let ?p = "external_plugin KindScanner (scfName sc) ext"
    have "host_reach lib (snd (LoadScanner lib ?p h))"
      using Cons.prems by (rule host_reach.load_scanner)
    then show ?thesis
      using Cons.IH True ext by (auto split: prod.split sum.split)
  next
    case False
    then show ?thesis
      using Cons by (auto split: option.split)
  qed
qed simp

lemma buildScanners_reach: "host_reach lib h \<Longrightarrow> host_reach lib (snd (buildScanners lib cfg h))"
  using select_scanners_reach [of lib h _ "cfScanners cfg" "[]"]
  by (auto simp: buildScanners_def split: sum.split prod.split) (metis snd_conv)+

lemma buildRedactor_reach:
  assumes "host_reach lib h" shows "host_reach lib (snd (buildRedactor lib cfg h))"
  using assms host_reach.load_redactor [OF assms]
  by (auto simp: buildRedactor_def split: option.split prod.split sum.split) (metis snd_conv)+

lemma run_host_reach: "host_reach (reLib re) h \<Longrightarrow> host_reach (reLib re) (snd (run_host re cfg lg h))"
proof -
  assume h: "host_reach (reLib re) h"
  obtain r1 h1 where b1: "buildScanners (reLib re) cfg h = (r1, h1)" by fastforce
  obtain r2 h2 where b2: "buildRedactor (reLib re) cfg h1 = (r2, h2)" by fastforce
  have "host_reach (reLib re) h1" "host_reach (reLib re) h2"
    using buildScanners_reach [OF h, of cfg] buildRedactor_reach [of "reLib re" h1 cfg] b1 b2 by simp_all
  then show ?thesis
    by (simp add: run_host_def b1 b2 Let_def split: sum.split)
qed

text \<open>A run that reached the plugin host.\<close>

lemma run_cases:
  assumes "rrHost (run re args) = Some h"
  obtains fs rest cfg lg where "flag_Parse run_flags args = Inr (fs, rest)"
    "loadConfig re (flag_string fs ''config'') = Inr cfg" "buildLogger (reUni re) (cfLog cfg) = Inr lg"
    "run re args = \<lparr>rrExit = Returns (fst (fst (run_host re cfg lg NewHost))), rrOut = [],
       rrHost = Some (Shutdown (snd (run_host re cfg lg NewHost))), rrServed = snd (fst (run_host re cfg lg NewHost))\<rparr>"
  using assms by (auto simp: run_def split: sum.splits prod.splits if_splits)

lemma run_served_cases:
  assumes "rrServed (run re args) = Some srv"
  obtains fs rest cfg lg where "flag_Parse run_flags args = Inr (fs, rest)"
    "loadConfig re (flag_string fs ''config'') = Inr cfg" "snd (fst (run_host re cfg lg NewHost)) = Some srv"
proof -
  have "rrHost (run re args) \<noteq> None"
    using assms by (auto simp: run_def split: sum.splits prod.splits if_splits)
  then obtain h where h: "rrHost (run re args) = Some h" by blast
  show ?thesis
    using assms by (cases rule: run_cases [OF h]) (auto intro: that)
qed

lemma loadConfig_valid: "loadConfig re path = Inr cfg \<Longrightarrow> Validate (reUni re) cfg = None"
  by (auto simp: loadConfig_def Load_def Default_valid split: if_splits sum.splits option.splits)

lemma buildScanners_nonempty: "buildScanners lib cfg h = (Inr scs, h') \<Longrightarrow> scs \<noteq> []"
  by (auto simp: buildScanners_def split: sum.splits prod.splits if_splits)

lemma buildCertStore_mitm:
  "buildCertStore defaults loadRoot genKey cfg = Inr cs \<Longrightarrow> cs \<noteq> None \<longleftrightarrow> tlMITM (cfTLS cfg)"
  by (auto simp: buildCertStore_def Let_def split: if_splits sum.splits prod.splits)

text \<open>A run of the middle part that got as far as serving.\<close>

lemma run_host_serves:
  assumes "snd (fst (run_host re cfg lg h)) = Some srv"
  obtains scs red cs where "fst (buildScanners (reLib re) cfg h) = Inr scs" "scs \<noteq> []"
    "srv = proxy_New (reSlogDefault re) (server_options cfg lg scs red cs)" "cs \<noteq> None \<longleftrightarrow> tlMITM (cfTLS cfg)"
    "\<exists>h1. fst (buildRedactor (reLib re) cfg h1) = Inr red"
proof -
  obtain scs h1 where s: "buildScanners (reLib re) cfg h = (Inr scs, h1)"
    using assms by (auto simp: run_host_def split: prod.splits sum.splits)
  obtain red h2 where r: "buildRedactor (reLib re) cfg h1 = (Inr red, h2)"
    using assms s by (auto simp: run_host_def split: prod.splits sum.splits)
  obtain cs where c: "buildCertStore (DefaultCAPaths (reGetenv re))
      (\<lambda>c k. LoadRoot (reOs re) (reCrypto re) c k (reFs re)) (reLeafKey re) cfg = Inr cs"
    using assms s r by (auto simp: run_host_def split: sum.splits)
  have "srv = proxy_New (reSlogDefault re) (server_options cfg lg scs red cs)"
    using assms s r c by (simp add: run_host_def Let_def)
  then show ?thesis
    using that buildScanners_nonempty [OF s] buildCertStore_mitm [OF c] s r by (metis fst_conv)
qed

subsection \<open>Properties\<close>

text \<open>
  C20: \<open>run\<close> leaves no plugin behind.  Whichever step fails after the plugin host exists, and also
  when serving ends, every plugin subprocess that was started has been killed, once, when \<open>run\<close>
  returns.
\<close>

theorem run_kills_plugins:
  assumes "rrHost (run re args) = Some h"
  shows "hoProcs h = [] \<and> set (hoKilled h) = {..<hoNext h} \<and> distinct (hoKilled h)"
proof -
  obtain cfg lg where "run re args = \<lparr>rrExit = Returns (fst (fst (run_host re cfg lg NewHost))), rrOut = [],
      rrHost = Some (Shutdown (snd (run_host re cfg lg NewHost))), rrServed = snd (fst (run_host re cfg lg NewHost))\<rparr>"
    using run_cases [OF assms] by metis
  then have h: "h = Shutdown (snd (run_host re cfg lg NewHost))"
    using assms by simp
  have "host_ok (snd (run_host re cfg lg NewHost))"
    using run_host_reach [OF host_reach.new] by (rule host_reach_ok)
  then show ?thesis
    by (auto simp: h host_ok_def Shutdown_def)
qed

text \<open>
  C19: What is served is what was configured.  When \<open>run\<close> starts a server, a configuration was loaded
  and passed validation; the server listens on its address, scans with at least one scanner, has a
  redactor, reads bodies up to the configured limit, which is positive, and intercepts TLS exactly
  when interception is on.
\<close>

theorem run_serves_config:
  assumes "rrServed (run re args) = Some srv"
  shows "\<exists>path cfg. loadConfig re path = Inr cfg \<and> Validate (reUni re) cfg = None
    \<and> server_Addr srv = cfListen cfg
    \<and> plScanners (svPipeline (handler_of srv)) \<noteq> [] \<and> plRedactor (svPipeline (handler_of srv)) \<noteq> None
    \<and> svMaxBody (handler_of srv) = lmMaxBodySize (cfLimits cfg) \<and> 0 < svMaxBody (handler_of srv)
    \<and> (svCertStore (handler_of srv) \<noteq> None \<longleftrightarrow> tlMITM (cfTLS cfg))"
proof -
  obtain fs rest cfg lg where r: "loadConfig re (flag_string fs ''config'') = Inr cfg"
      and served: "snd (fst (run_host re cfg lg NewHost)) = Some srv"
    by (rule run_served_cases [OF assms])
  obtain scs red cs where s: "scs \<noteq> []" "srv = proxy_New (reSlogDefault re) (server_options cfg lg scs red cs)"
      "cs \<noteq> None \<longleftrightarrow> tlMITM (cfTLS cfg)"
    by (rule run_host_serves [OF served])
  have v: "Validate (reUni re) cfg = None"
    using r by (rule loadConfig_valid)
  have "server_Addr srv = cfListen cfg"
    unfolding s(2) by (simp add: server_Addr_def proxy_New_def server_options_def Let_def)
  moreover have "handler_of srv = \<lparr>svPipeline = pipeline_New scs (Some red), svMaxBody = lmMaxBodySize (cfLimits cfg),
      svStreamWindow = smWindowBytes (cfStreaming cfg), svCertStore = cs\<rparr>"
    unfolding s(2) New_handler using Validate_accepts(2) [OF v] by (simp add: server_options_def)
  ultimately show ?thesis
    using r v s(1,3) Validate_accepts(2) [OF v]
    by (intro exI [of _ "flag_string fs ''config''"] exI [of _ cfg]) (simp add: pipeline_New_def)
qed

definition toy_run :: run_env where
  "toy_run = \<lparr>reUni = id, reOs = quiet_env, reFs = toy_fs, reGetenv = (\<lambda>v. []), reDecode = (\<lambda>b c. Inr c),
     reLib = sample_lib, reCrypto = toy_crypto, reLeafKey = Inr [5], reVersion = ''dev'', reBuildInfo = None,
     reSlogDefault = \<lparr>loFormat = TextHandler, loLevel = LevelInfo\<rparr>, reStart = (\<lambda>s. None)\<rparr>"

text \<open>Without arguments the program always gets as far as serving, with the default configuration.\<close>

lemma default_scanners: "buildScanners lib Default h = (Inr [pii_New, secrets_New], h)"
proof -
  have b: "builtin ''pii'' = Some pii_New" "builtin ''secrets'' = Some secrets_New"
    by (simp_all add: builtin_def builtins_def pii_New_def secrets_New_def pii_Name_def secrets_Name_def)
  have "buildScanners lib Default h =
      (Inr (map (\<lambda>sc. the (builtin (scfName sc))) (filter scfEnabled (cfScanners Default))), h)"
    by (rule buildScanners_builtin) (auto simp: Default_def EnabledScanners_def b)
  then show ?thesis
    by (simp add: Default_def b)
qed

lemma default_redactor: "buildRedactor lib Default h = (Inr (mask_api (mask_New ''[REDACTED]'')), h)"
proof -
  have "rcExternal (cfRedactor Default) = None" "rcName (cfRedactor Default) = ''mask''"
      "config_placeholder Default = ''[REDACTED]''"
    by (simp_all add: Default_def config_placeholder_def)
  then show ?thesis
    by (simp add: buildRedactor_def redactor_Register_def redactor_NewRegistry_def redactor_Get_def mask_api_def
        mask_Name_def Let_def)
qed

lemma default_logger: "\<exists>lg. buildLogger uni (cfLog Default) = Inr lg"
  using Validate_accepts(6) [OF Default_valid, of uni] by (auto simp: buildLogger_def)

text \<open>The options of the default server.\<close>

definition default_server :: "logger \<Rightarrow> options" where
  "default_server lg = server_options Default lg [pii_New, secrets_New] (mask_api (mask_New ''[REDACTED]'')) None"

lemma run_default_config:
  assumes "flag_Parse run_flags args = Inr (fs, rest)" "\<not> flag_bool fs ''version''"
    and "loadConfig re (flag_string fs ''config'') = Inr Default"
  obtains lg where "rrServed (run re args) = Some (proxy_New (reSlogDefault re) (default_server lg))"
    "rrHost (run re args) = Some NewHost"
proof -
  obtain lg where lg: "buildLogger (reUni re) (cfLog Default) = Inr lg"
    using default_logger by blast
  have c: "buildCertStore d l k Default = Inr None" for d l k
    by (simp add: buildCertStore_def Default_def)
  let ?srv = "proxy_New (reSlogDefault re) (default_server lg)"
  have h: "run_host re Default lg NewHost = ((reStart re ?srv, Some ?srv), NewHost)"
    by (simp add: run_host_def default_scanners default_redactor c default_server_def Let_def)
  have "run re args = \<lparr>rrExit = Returns (reStart re ?srv), rrOut = [], rrHost = Some (Shutdown NewHost),
      rrServed = Some ?srv\<rparr>"
    using assms by (simp add: run_def lg h)
  moreover have "Shutdown NewHost = NewHost"
    by (simp add: Shutdown_def NewHost_def)
  ultimately show ?thesis
    using that by simp
qed

lemma default_run:
  obtains lg where "rrServed (run re []) = Some (proxy_New (reSlogDefault re) (default_server lg))"
    "rrHost (run re []) = Some NewHost"
proof -
  have f: "flag_Parse run_flags [] = Inr (run_flags, [])" "\<not> flag_bool run_flags ''version''"
      "loadConfig re (flag_string run_flags ''config'') = Inr Default"
    by (simp_all add: run_flags_def flag_string_def flag_bool_def loadConfig_def)
  from run_default_config [OF this] that show ?thesis .
qed

text \<open>The arguments that name a configuration file.\<close>

lemma parse_config:
  obtains fs where "flag_Parse run_flags [''-config'', path] = Inr (fs, [])"
    "flag_string fs ''config'' = path" "\<not> flag_bool fs ''version''"
proof -
  let ?fs = "foldl (\<lambda>f (k, v). set_flag k (FString v) f) run_flags [(''config'', path)]"
  have "flag_Parse run_flags (flag_args [(''config'', path)] @ []) = flag_Parse ?fs []"
    by (rule flag_Parse_args) (auto simp: run_flags_def flag_name_def)
  then have "flag_Parse run_flags [''-config'', path] = Inr (?fs, [])"
    by (simp add: flag_args_def)
  moreover have "flag_string ?fs ''config'' = path" "\<not> flag_bool ?fs ''version''"
    by (simp_all add: flag_string_def flag_bool_def set_flag_def run_flags_def)
  ultimately show ?thesis
    by (rule that)
qed

text \<open>A built-in scanner that is enabled is in the pipeline, whatever else is.\<close>

lemma select_scanners_keeps:
  "select_scanners lib reg scs out h = (Inr res, h') \<Longrightarrow> set out \<subseteq> set res"
  by (induction scs arbitrary: out h)
    (fastforce split: if_splits option.splits prod.splits sum.splits)+

lemma select_scanners_has:
  assumes "select_scanners lib reg scs out h = (Inr res, h')"
    and "sc \<in> set scs" "scfEnabled sc" "scfExternal sc = None"
  shows "\<exists>s\<in>set res. scanner_Get (scfName sc) reg = Some s"
  using assms(1,2)
proof (induction scs arbitrary: out h)
  case (Cons sc' scs)
  show ?case
  proof (cases "sc = sc'")
    case True
    then obtain s where s: "scanner_Get (scfName sc) reg = Some s"
        "select_scanners lib reg scs (out @ [s]) h = (Inr res, h')"
      using Cons.prems(1) assms(3,4) by (auto split: option.splits)
    then show ?thesis
      using select_scanners_keeps [OF s(2)] by auto
  next
    case False
    then have "sc \<in> set scs"
      using Cons.prems(2) by simp
    moreover obtain out' h'' where "select_scanners lib reg scs out' h'' = (Inr res, h')"
      using Cons.prems(1) by (auto split: if_splits option.splits prod.splits sum.splits)
    ultimately show ?thesis
      using Cons.IH by blast
  qed
qed simp

lemma buildScanners_has:
  assumes "buildScanners lib cfg h = (Inr scs, h')"
    and "sc \<in> set (cfScanners cfg)" "scfEnabled sc" "scfExternal sc = None" "scfName sc = ''pii''"
  shows "pii_New \<in> set scs"
proof -
  obtain reg where reg: "register_each builtins scanner_NewRegistry = Inr reg"
      "\<And>k. scanner_Get k reg = find (\<lambda>s. scName s = k) builtins"
    using builtins_registered by metis
  have "select_scanners lib reg (cfScanners cfg) [] h = (Inr scs, h')"
    using assms(1) reg(1) by (auto simp: buildScanners_def split: prod.splits sum.splits if_splits)
  from select_scanners_has [OF this assms(2-4)] show ?thesis
    by (simp add: assms(5) reg(2) builtins_def pii_New_def pii_Name_def)
qed

lemma buildRedactor_mask:
  assumes "fst (buildRedactor lib cfg h) = Inr red" "rcExternal (cfRedactor cfg) = None"
  shows "red = mask_api (mask_New (config_placeholder cfg))"
  using assms
  by (auto simp: buildRedactor_def redactor_Register_def redactor_NewRegistry_def redactor_Get_def
      mask_api_def mask_Name_def Let_def split: option.splits if_splits)

text \<open>
  A configuration with two scanner plugins, the second of which does not connect: the start fails
  with one plugin running and one killed.
\<close>

definition plugin_scanner :: "string \<Rightarrow> scanner_config" where
  "plugin_scanner cmd = \<lparr>scfName = cmd, scfEnabled = True,
     scfExternal = Some \<lparr>exCommand = [cmd], exEnv = [], exHandshakeTimeoutSeconds = 0\<rparr>\<rparr>"

definition plugin_setup :: config where
  "plugin_setup = Default\<lparr>cfScanners := [plugin_scanner ''ner'', plugin_scanner ''bad'']\<rparr>"

definition plugin_run :: run_env where
  "plugin_run = toy_run\<lparr>reFs := [''.'' \<mapsto> DirNode 493, ''c'' \<mapsto> FileNode 420 []],
     reDecode := (\<lambda>b c. Inr plugin_setup)\<rparr>"

lemma plugin_config: "loadConfig plugin_run ''c'' = Inr plugin_setup"
proof -
  have "Validate id plugin_setup = None"
    by code_simp
  then show ?thesis
    by (simp add: loadConfig_def Load_def ReadFile_def plugin_run_def toy_run_def quiet_env_def toy_paths)
qed

lemma plugin_scanners:
  "\<exists>e h. buildScanners sample_lib plugin_setup NewHost = (Inl e, h) \<and> hoNext h = 2"
proof -
  obtain reg where "register_each builtins scanner_NewRegistry = Inr reg"
    using builtins_registered by metis
  then show ?thesis
    by (simp add: buildScanners_def plugin_setup_def plugin_scanner_def external_plugin_def LoadScanner_def
        dispense_def sample_lib_def NewHost_def Let_def)
qed

theorem run_kills_plugins_witness:
  "\<exists>h. rrHost (run plugin_run [''-config'', ''c'']) = Some h \<and> hoProcs h = [] \<and> set (hoKilled h) = {0, 1}"
proof -
  obtain fs where fs: "flag_Parse run_flags [''-config'', ''c''] = Inr (fs, [])" "flag_string fs ''config'' = ''c''"
      "\<not> flag_bool fs ''version''"
    by (rule parse_config)
  obtain lg where lg: "buildLogger (reUni plugin_run) (cfLog plugin_setup) = Inr lg"
    using default_logger by (auto simp: plugin_setup_def)
  obtain e h where h: "buildScanners (reLib plugin_run) plugin_setup NewHost = (Inl e, h)" "hoNext h = 2"
    using plugin_scanners by (auto simp: plugin_run_def toy_run_def)
  then have r: "rrHost (run plugin_run [''-config'', ''c'']) = Some (Shutdown h)"
    using fs plugin_config lg by (simp add: run_def run_host_def del: flag_Parse.simps)
  have "hoNext (Shutdown h) = 2"
    using h(2) by (simp add: Shutdown_def)
  then show ?thesis
    using run_kills_plugins [OF r] r by (auto simp: lessThan_Suc numeral_2_eq_2)
qed

theorem run_serves_config_witness:
  "\<exists>srv. rrServed (run toy_run []) = Some srv \<and> 0 < svMaxBody (handler_of srv)
    \<and> plScanners (svPipeline (handler_of srv)) \<noteq> []"
proof -
  obtain lg where "rrServed (run toy_run []) = Some (proxy_New (reSlogDefault toy_run) (default_server lg))"
    by (rule default_run)
  with run_serves_config [OF this] show ?thesis by blast
qed

end
