(* ===== verification/Plugin_Sdk.thy ===== *)
theory Plugin_Sdk
  imports Plugin_Host Pem Regex
begin

text \<open>
  The plugin side, \<open>handshake.go\<close>, \<open>server.go\<close> and the plugin descriptors of \<open>scanner.go\<close> and
  \<open>redactor.go\<close> under \<open>src/pkg/plugin\<close>, and the example plugin
  \<open>src/internal/plugin/testdata/echoplugin\<close>.  The go-plugin and gRPC libraries are parameters: the
  sizes of messages and the status errors are a record \<open>grpc_lib\<close>, and what the libraries document
  of a connection between a served plugin and a host is the predicate \<open>connects_to\<close>.  A call fails
  when a string of a message is not UTF-8, when a request is larger than a gRPC server takes by
  default, and when no service answers; a handler's error arrives as a status error.
\<close>

subsection \<open>Serving\<close>

record handshake_config =
  hkProtocolVersion :: int
  hkMagicCookieKey :: string
  hkMagicCookieValue :: string

definition Handshake :: handshake_config where
  "Handshake = \<lparr>hkProtocolVersion = 1, hkMagicCookieKey = ''TG_PROXY_PLUGIN'',
     hkMagicCookieValue = ''tg-proxy.plugin.v1''\<rparr>"

definition ScannerPluginName :: string where "ScannerPluginName = ''scanner''"
definition RedactorPluginName :: string where "RedactorPluginName = ''redactor''"

datatype plugin_desc = ScannerPlugin "scanner option" | RedactorPlugin "redactor option"

record serve_config =
  sfHandshake :: handshake_config
  sfPlugins :: "string \<rightharpoonup> plugin_desc"

definition ServeScanner :: "scanner \<Rightarrow> serve_config" where
  "ServeScanner impl = \<lparr>sfHandshake = Handshake, sfPlugins = [ScannerPluginName \<mapsto> ScannerPlugin (Some impl)]\<rparr>"

definition ServeRedactor :: "redactor \<Rightarrow> serve_config" where
  "ServeRedactor impl = \<lparr>sfHandshake = Handshake, sfPlugins = [RedactorPluginName \<mapsto> RedactorPlugin (Some impl)]\<rparr>"

definition HostPluginMap :: "string \<rightharpoonup> plugin_desc" where
  "HostPluginMap = [ScannerPluginName \<mapsto> ScannerPlugin None, RedactorPluginName \<mapsto> RedactorPlugin None]"

subsection \<open>Services and clients\<close>

record plugin_info =
  piName :: string
  piVersion :: string

definition pluginVersion :: string where "pluginVersion = ''dev''"

definition grpcScannerServer_Info :: "scanner \<Rightarrow> plugin_info" where
  "grpcScannerServer_Info impl = \<lparr>piName = scName impl, piVersion = pluginVersion\<rparr>"

definition grpcRedactorServer_Info :: "redactor \<Rightarrow> plugin_info" where
  "grpcRedactorServer_Info impl = \<lparr>piName = rdName impl, piVersion = pluginVersion\<rparr>"

text \<open>The services registered on a gRPC server.\<close>

record services =
  gsScanner :: "scanner option"
  gsRedactor :: "redactor option"

definition ScannerPlugin_GRPCServer :: "scanner option \<Rightarrow> services \<Rightarrow> services" where
  "ScannerPlugin_GRPCServer impl s = s\<lparr>gsScanner := impl\<rparr>"

definition RedactorPlugin_GRPCServer :: "redactor option \<Rightarrow> services \<Rightarrow> services" where
  "RedactorPlugin_GRPCServer impl s = s\<lparr>gsRedactor := impl\<rparr>"

fun GRPCServer :: "plugin_desc \<Rightarrow> services \<Rightarrow> services" where
  "GRPCServer (ScannerPlugin impl) s = ScannerPlugin_GRPCServer impl s"
| "GRPCServer (RedactorPlugin impl) s = RedactorPlugin_GRPCServer impl s"

subsection \<open>Calls\<close>

text \<open>
  What the libraries bring: the encoded sizes of the messages, the status error the library itself
  gives for a code, and the status error a handler's error becomes.
\<close>

record grpc_lib =
  gcScanSize :: "scan_request \<Rightarrow> nat"
  gcFindingsSize :: "pb_finding option list \<Rightarrow> nat"
  gcRedactSize :: "redact_request \<Rightarrow> nat"
  gcOutSize :: "bytes \<Rightarrow> nat"
  gcStatus :: "string \<Rightarrow> go_error"
  gcHandlerStatus :: "go_error \<Rightarrow> go_error"

text \<open>
  \<open>DefaultGRPCServer\<close> passes no options, so the server takes messages of up to 4 MiB; go-plugin's
  client takes replies of up to \<open>math.MaxInt32\<close> bytes.
\<close>

definition max_request :: nat where "max_request = 4 * 1024 * 1024"
definition max_reply :: nat where "max_reply = 2 ^ 31 - 1"

text \<open>\<open>utf8.Valid\<close>: no position decodes to the error rune of width one.\<close>

function Valid :: "bytes \<Rightarrow> bool" where
  "Valid [] = True"
| "Valid (b # bs) =
     (let d = DecodeRune (b # bs) in
      \<not> (fst d = RuneError \<and> snd d = 1) \<and> Valid (drop (snd d) (b # bs)))"
  by pat_completeness auto
termination
proof (relation "measure length")
  fix b bs d
  assume d: "d = DecodeRune (b # bs)"
  have "1 \<le> snd d"
    unfolding d using DecodeRune_width [of "b # bs"] by blast
  then show "(drop (snd d) (b # bs), b # bs) \<in> measure length"
    by simp
qed simp

declare Valid.simps(2) [simp del]

definition utf8_string :: "string \<Rightarrow> bool" where
  "utf8_string s = Valid (str s)"

fun hints_utf8 :: "pb_hints option \<Rightarrow> bool" where
  "hints_utf8 None = True"
| "hints_utf8 (Some h) = (utf8_string (phContentType h) \<and> utf8_string (phUrl h) \<and> utf8_string (phMethod h))"

fun finding_utf8 :: "pb_finding option \<Rightarrow> bool" where
  "finding_utf8 None = True"
| "finding_utf8 (Some f) = (utf8_string (pfType f) \<and> utf8_string (pfScanner f) \<and>
     list_all (\<lambda>(k, v). utf8_string k \<and> utf8_string v) (pfMetadata f))"

definition rpc_Info :: "grpc_lib \<Rightarrow> plugin_info option \<Rightarrow> go_error + string option" where
  "rpc_Info g info =
     (case info of
        None \<Rightarrow> Inl (gcStatus g ''Unimplemented'')
      | Some i \<Rightarrow> if utf8_string (piName i) \<and> utf8_string (piVersion i) then Inr (Some (piName i))
                  else Inl (gcStatus g ''Internal''))"

definition rpc_Scan :: "grpc_lib \<Rightarrow> services \<Rightarrow> scan_request \<Rightarrow> go_error + pb_finding option list" where
  "rpc_Scan g s req =
     (if \<not> hints_utf8 (sqHints req) then Inl (gcStatus g ''Internal'')
      else case gsScanner s of
        None \<Rightarrow> Inl (gcStatus g ''Unimplemented'')
      | Some impl \<Rightarrow>
          if max_request < gcScanSize g req then Inl (gcStatus g ''ResourceExhausted'')
          else (case grpcScannerServer_Scan impl req of
                  Inl err \<Rightarrow> Inl (gcHandlerStatus g err)
                | Inr fs \<Rightarrow>
                    if \<not> list_all finding_utf8 fs then Inl (gcStatus g ''Internal'')
                    else if max_reply < gcFindingsSize g fs then Inl (gcStatus g ''ResourceExhausted'')
                    else Inr fs))"

definition rpc_Redact :: "grpc_lib \<Rightarrow> services \<Rightarrow> redact_request \<Rightarrow> go_error + bytes" where
  "rpc_Redact g s req =
     (if \<not> list_all finding_utf8 (rqFindings req) then Inl (gcStatus g ''Internal'')
      else case gsRedactor s of
        None \<Rightarrow> Inl (gcStatus g ''Unimplemented'')
      | Some impl \<Rightarrow>
          if max_request < gcRedactSize g req then Inl (gcStatus g ''ResourceExhausted'')
          else (case grpcRedactorServer_Redact impl req of
                  Inl err \<Rightarrow> Inl (gcHandlerStatus g err)
                | Inr out \<Rightarrow> if max_reply < gcOutSize g out then Inl (gcStatus g ''ResourceExhausted'')
                             else Inr out))"

text \<open>\<open>GRPCClient\<close>: the adapter a host gets for a connection to a server with these services.\<close>

definition ScannerPlugin_GRPCClient :: "grpc_lib \<Rightarrow> services \<Rightarrow> raw_plugin" where
  "ScannerPlugin_GRPCClient g s =
     RawScanner \<lparr>pcName = []\<rparr> (rpc_Info g (map_option grpcScannerServer_Info (gsScanner s))) (rpc_Scan g s)"

definition RedactorPlugin_GRPCClient :: "grpc_lib \<Rightarrow> services \<Rightarrow> raw_plugin" where
  "RedactorPlugin_GRPCClient g s =
     RawRedactor \<lparr>pcName = []\<rparr> (rpc_Info g (map_option grpcRedactorServer_Info (gsRedactor s))) (rpc_Redact g s)"

fun GRPCClient :: "grpc_lib \<Rightarrow> plugin_desc \<Rightarrow> services \<Rightarrow> raw_plugin" where
  "GRPCClient g (ScannerPlugin impl) s = ScannerPlugin_GRPCClient g s"
| "GRPCClient g (RedactorPlugin impl) s = RedactorPlugin_GRPCClient g s"

definition served_services :: "serve_config \<Rightarrow> services" where
  "served_services sc =
     (let s0 = \<lparr>gsScanner = None, gsRedactor = None\<rparr>;
          s1 = (case sfPlugins sc ScannerPluginName of None \<Rightarrow> s0 | Some p \<Rightarrow> GRPCServer p s0) in
      case sfPlugins sc RedactorPluginName of None \<Rightarrow> s1 | Some p \<Rightarrow> GRPCServer p s1)"

text \<open>
  What the libraries document of a command whose process serves \<open>sc\<close>: the connection succeeds when
  the two sides agree on the handshake, and \<open>Dispense\<close> gives the client of the host's descriptor of
  that kind, on a connection to the process.  A call on the connection is one of the functions above,
  as long as the process lives and the context of the call is not done.
\<close>

definition connects_to :: "grpc_lib \<Rightarrow> plugin_lib \<Rightarrow> start_config \<Rightarrow> serve_config \<Rightarrow> bool" where
  "connects_to g lib cmd sc \<longleftrightarrow>
     (sfHandshake sc = Handshake \<longrightarrow> plConnect lib cmd = None) \<and>
     (\<forall>kind. plDispense lib cmd kind =
        (case HostPluginMap kind of
           None \<Rightarrow> Inl (GoErr ''unknown plugin type: %s'' [kind])
         | Some p \<Rightarrow> Inr (GRPCClient g p (served_services sc))))"

definition start_of :: "plugin_config \<Rightarrow> start_config" where
  "start_of cfg = \<lparr>stcCommand = pcfgCommand cfg,
     stcEnv = (if pcfgEnv cfg = [] then None else Some (pcfgEnv cfg)),
     stcTimeout = (if pcfgHandshakeTimeout cfg \<le> 0 then 10 * 10 ^ 9 else pcfgHandshakeTimeout cfg)\<rparr>"

lemma kinds: "HostPluginMap KindScanner = Some (ScannerPlugin None)"
  "HostPluginMap KindRedactor = Some (RedactorPlugin None)"
  by (simp_all add: HostPluginMap_def KindScanner_def KindRedactor_def ScannerPluginName_def RedactorPluginName_def)

lemma served_scanner: "served_services (ServeScanner impl) = \<lparr>gsScanner = Some impl, gsRedactor = None\<rparr>"
  by (simp add: served_services_def ServeScanner_def ScannerPlugin_GRPCServer_def ScannerPluginName_def RedactorPluginName_def)

lemma served_redactor: "served_services (ServeRedactor impl) = \<lparr>gsScanner = None, gsRedactor = Some impl\<rparr>"
  by (simp add: served_services_def ServeRedactor_def RedactorPlugin_GRPCServer_def ScannerPluginName_def RedactorPluginName_def)

lemma dispense_connected:
  assumes "connects_to g lib (start_of cfg) sc" "sfHandshake sc = Handshake" "pcfgCommand cfg \<noteq> []"
    and "HostPluginMap kind = Some p"
  shows "dispense lib cfg kind h =
    (Inr (GRPCClient g p (served_services sc)), h\<lparr>hoNext := Suc (hoNext h), hoProcs := hoProcs h @ [hoNext h]\<rparr>)"
  using assms by (simp add: dispense_def connects_to_def start_of_def Let_def)

lemma Valid_ascii: "list_all (\<lambda>b. b < 0x80) bs \<Longrightarrow> Valid bs"
proof (induction bs)
  case (Cons b bs)
  then have "uint b \<noteq> RuneError"
    using uint_byte_bounds [of b] by (simp add: RuneError_def)
  with Cons show ?case by (simp add: Valid.simps(2))
qed simp

lemma version_utf8: "utf8_string pluginVersion"
  by (simp add: utf8_string_def pluginVersion_def str_def Valid_ascii)

text \<open>What \<open>LoadScanner\<close> makes of a process that serves a scanner.\<close>

lemma load_served:
  assumes "connects_to g lib (start_of cfg) (ServeScanner impl)" "pcfgCommand cfg \<noteq> []"
  shows "LoadScanner lib cfg h =
    (Inr \<lparr>scName = (if scName impl = [] \<or> \<not> utf8_string (scName impl) then pcfgName cfg else scName impl),
          scAccepts = None,
          scScan = grpcScannerClient_Scan (rpc_Scan g \<lparr>gsScanner = Some impl, gsRedactor = None\<rparr>)\<rparr>,
     h\<lparr>hoNext := Suc (hoNext h), hoProcs := hoProcs h @ [hoNext h]\<rparr>)"
proof -
  have "dispense lib cfg KindScanner h =
      (Inr (GRPCClient g (ScannerPlugin None) (served_services (ServeScanner impl))),
       h\<lparr>hoNext := Suc (hoNext h), hoProcs := hoProcs h @ [hoNext h]\<rparr>)"
    using assms by (intro dispense_connected kinds) (simp_all add: ServeScanner_def)
  then show ?thesis
    by (simp add: LoadScanner_def ScannerPlugin_GRPCClient_def served_scanner rpc_Info_def
        grpcScannerServer_Info_def has_Info_def client_Info_def version_utf8 Let_def)
qed

text \<open>
  What of a scan gets through: a request whose strings are UTF-8 and whose encoding is within the
  server's limit, and findings that survive the conversion, have UTF-8 strings and fit a reply.
\<close>

definition request_passes :: "grpc_lib \<Rightarrow> bytes \<Rightarrow> hints \<Rightarrow> bool" where
  "request_passes g data hs \<longleftrightarrow> hints_utf8 (Some (HintsToProto hs)) \<and>
     gcScanSize g \<lparr>sqData = data, sqHints = Some (HintsToProto hs)\<rparr> \<le> max_request"

definition findings_pass :: "grpc_lib \<Rightarrow> finding list \<Rightarrow> bool" where
  "findings_pass g fs \<longleftrightarrow> list_all (\<lambda>f. crosses_wire f \<and> finding_utf8 (Some (FindingToProto f))) fs \<and>
     gcFindingsSize g (map Some (FindingsToProto fs)) \<le> max_reply"

text \<open>The protobuf encoding of a request holds its data.\<close>

definition holds_data :: "grpc_lib \<Rightarrow> bool" where
  "holds_data g \<longleftrightarrow> (\<forall>req. length (sqData req) \<le> gcScanSize g req) \<and>
     (\<forall>req. length (rqData req) \<le> gcRedactSize g req)"

lemma remote_passes:
  assumes "request_passes g data hs" "findings_pass g (fst (scScan impl data hs))"
  shows "grpcScannerClient_Scan (rpc_Scan g \<lparr>gsScanner = Some impl, gsRedactor = r\<rparr>) data hs =
    (case scScan impl data hs of (fs, None) \<Rightarrow> (fs, None) | (fs, Some e) \<Rightarrow> ([], Some (gcHandlerStatus g e)))"
proof -
  let ?fs = "fst (scScan impl data hs)"
  have "FindingsFromProto (map Some (FindingsToProto ?fs)) = ?fs"
    using assms(2) by (intro Findings_round) (auto simp: findings_pass_def list_all_iff)
  moreover have "list_all finding_utf8 (map Some (FindingsToProto ?fs))"
      "\<not> max_reply < gcFindingsSize g (map Some (FindingsToProto ?fs))"
    using assms(2) by (auto simp: findings_pass_def list_all_iff FindingsToProto_def)
  ultimately show ?thesis
    using assms(1)
    by (auto simp: grpcScannerClient_Scan_def rpc_Scan_def request_passes_def grpcScannerServer_Scan_def
        Hints_round simp del: hints_utf8.simps split: prod.split option.split)
qed

lemma remote_refuses:
  assumes "holds_data g" "max_request < length data \<or> \<not> hints_utf8 (Some (HintsToProto hs))"
  shows "\<exists>e. grpcScannerClient_Scan (rpc_Scan g \<lparr>gsScanner = Some impl, gsRedactor = r\<rparr>) data hs = ([], Some e)"
proof -
  let ?req = "\<lparr>sqData = data, sqHints = Some (HintsToProto hs)\<rparr>"
  have "length data \<le> gcScanSize g ?req"
    using assms(1) unfolding holds_data_def by (metis scan_request.select_convs(1))
  then show ?thesis
    using assms(2) by (auto simp: grpcScannerClient_Scan_def rpc_Scan_def simp del: hints_utf8.simps)
qed

text \<open>The same for a redactor: whatever serves it, a body over the limit is refused.\<close>

lemma load_served_redactor:
  assumes "connects_to g lib (start_of cfg) sc" "sfHandshake sc = Handshake" "LoadRedactor lib cfg h = (Inr red, h')"
  shows "rdRedact red = grpcRedactorClient_Redact (rpc_Redact g (served_services sc))"
proof -
  have "pcfgCommand cfg \<noteq> []"
    using assms(3) by (auto simp: LoadRedactor_def dispense_def)
  then have "dispense lib cfg KindRedactor h = (Inr (GRPCClient g (RedactorPlugin None) (served_services sc)),
      h\<lparr>hoNext := Suc (hoNext h), hoProcs := hoProcs h @ [hoNext h]\<rparr>)"
    by (rule dispense_connected [OF assms(1,2) _ kinds(2)])
  then show ?thesis
    using assms(3) by (auto simp: LoadRedactor_def RedactorPlugin_GRPCClient_def has_Info_def Let_def)
qed

lemma remote_redact_refuses:
  assumes "holds_data g" "max_request < length data"
  shows "\<exists>e. grpcRedactorClient_Redact (rpc_Redact g s) data fs = Inl e"
proof -
  let ?req = "\<lparr>rqData = data, rqFindings = map Some (FindingsToProto fs)\<rparr>"
  have "length data \<le> gcRedactSize g ?req"
    using assms(1) unfolding holds_data_def by (metis redact_request.select_convs(1))
  then show ?thesis
    using assms(2) by (auto simp: grpcRedactorClient_Redact_def rpc_Redact_def split: option.splits)
qed

subsection \<open>The example plugin\<close>

definition needle :: bytes where
  "needle = str ''TOKEN''"

definition echo_finding :: "nat \<Rightarrow> finding" where
  "echo_finding p = \<lparr>fType = ''echo.token'', fSeverity = SeverityHigh, fStart = int p,
     fEnd = int (p + length needle), fConfidence = 1, fScanner = ''echo'', fMetadata = []\<rparr>"

lemma needle_bytes: "needle = [84, 79, 75, 69, 78]"
  by (simp add: needle_def str_def)

lemma length_needle [simp]: "length needle = 5"
  by (simp add: needle_bytes)

function echo_loop :: "bytes \<Rightarrow> nat \<Rightarrow> finding list \<Rightarrow> finding list" where
  "echo_loop data start findings =
     (case bytes_Index needle (drop start data) of
        None \<Rightarrow> findings
      | Some i \<Rightarrow> echo_loop data (start + i + length needle) (findings @ [echo_finding (start + i)]))"
  by pat_completeness auto
termination
  by (relation "measure (\<lambda>(data, start, findings). length data - start)")
    (auto dest!: bytes_Index_le)

declare echo_loop.simps [simp del]

definition echoScanner :: scanner where
  "echoScanner = \<lparr>scName = ''echo'', scAccepts = None, scScan = (\<lambda>data h. (echo_loop data 0 [], None))\<rparr>"

definition token_at :: "bytes \<Rightarrow> nat \<Rightarrow> bool" where
  "token_at data j \<longleftrightarrow> take (length needle) (drop j data) = needle"

lemma bytes_Index_Some:
  "bytes_Index sep s = Some i \<Longrightarrow> take (length sep) (drop i s) = sep \<and> (\<forall>j<i. take (length sep) (drop j s) \<noteq> sep)"
proof (induction sep s arbitrary: i rule: bytes_Index.induct)
  case (2 sep c s)
  show ?case
  proof (cases "take (length sep) (c # s) = sep")
    case False
    then obtain k where k: "bytes_Index sep s = Some k" "i = Suc k"
      using 2(2) by auto
    have "take (length sep) (drop j (c # s)) \<noteq> sep" if "j < i" for j
      using 2(1) [OF False k(1)] that False k(2) by (cases j) auto
    then show ?thesis
      using 2(1) [OF False k(1)] k(2) by auto
  qed (use 2 in simp)
qed (simp split: if_splits)

lemma bytes_Index_None: "bytes_Index sep s = None \<Longrightarrow> take (length sep) (drop j s) \<noteq> sep"
proof (induction sep s arbitrary: j rule: bytes_Index.induct)
  case (2 sep c s)
  then show ?case by (cases j) (auto split: if_splits)
qed (auto split: if_splits)

text \<open>The needle does not overlap itself, its letters being distinct.\<close>

lemma token_letters: "token_at data j \<Longrightarrow> k < 5 \<Longrightarrow> j + 5 \<le> length data \<and> data ! (j + k) = needle ! k"
proof -
  assume t: "token_at data j" and k: "k < 5"
  have len: "j + 5 \<le> length data"
    using arg_cong [OF t [unfolded token_at_def], of length] by simp
  have "take 5 (drop j data) ! k = needle ! k"
    using t by (simp add: token_at_def)
  then show ?thesis
    using k len by simp
qed

lemma token_apart: "token_at data j \<Longrightarrow> 0 < d \<Longrightarrow> d < 5 \<Longrightarrow> \<not> token_at data (j + d)"
proof
  assume t: "token_at data j" "0 < d" "d < 5" "token_at data (j + d)"
  have "needle ! d = needle ! 0"
    using token_letters [OF t(1,3)] token_letters [OF t(4), of 0] by simp
  moreover have "d = 1 \<or> d = 2 \<or> d = 3 \<or> d = 4"
    using t(2,3) by auto
  ultimately show False
    by (auto simp: needle_bytes)
qed

lemma echo_loop_finds:
  "start \<le> length data \<Longrightarrow> echo_loop data start findings =
    findings @ map echo_finding (filter (token_at data) [start..<length data])"
proof (induction data start findings rule: echo_loop.induct)
  case (1 data start findings)
  show ?case
  proof (cases "bytes_Index needle (drop start data)")
    case None
    then have "\<not> token_at data j" if "start \<le> j" for j
      using bytes_Index_None [OF None, of "j - start"] that by (simp add: token_at_def)
    then have "filter (token_at data) [start..<length data] = []"
      by (auto simp: filter_empty_conv)
    then show ?thesis
      using None by (simp add: echo_loop.simps)
  next
    case (Some i)
    let ?p = "start + i"
    have len: "?p + 5 \<le> length data"
      using bytes_Index_le [OF Some] 1(2) by simp
    have at: "token_at data ?p"
      using bytes_Index_Some [OF Some] by (simp add: token_at_def add.commute)
    have "\<not> token_at data j" if "start \<le> j" "j < ?p" for j
      using bytes_Index_Some [OF Some] that by (auto simp: token_at_def dest!: spec [of _ "j - start"])
    then have before: "filter (token_at data) [start..<?p] = []"
      by (auto simp: filter_empty_conv)
    have "\<not> token_at data j" if "Suc ?p \<le> j" "j < ?p + 5" for j
      using token_apart [OF at, of "j - ?p"] that by simp
    then have inside: "filter (token_at data) [Suc ?p..<?p + 5] = []"
      by (auto simp: filter_empty_conv)
    have "[start..<length data] = [start..<?p] @ ?p # [Suc ?p..<?p + 5] @ [?p + 5..<length data]"
      using len upt_add_eq_append [of start ?p "length data - ?p"] upt_conv_Cons [of ?p "length data"]
        upt_add_eq_append [of "Suc ?p" "?p + 5" "length data - (?p + 5)"] by simp
    then have "filter (token_at data) [start..<length data] = ?p # filter (token_at data) [?p + 5..<length data]"
      using before inside at by simp
    then show ?thesis
      using 1(1) [OF Some] Some len by (subst echo_loop.simps) simp
  qed
qed

subsection \<open>Properties\<close>

text \<open>
  C23: A scanner served with the SDK works in the host, within the limits of gRPC.  When a command's
  process serves a scanner with \<open>ServeScanner\<close>, \<open>LoadScanner\<close> succeeds and records the process; the
  loaded scanner has the plugin's own name, or the configured one when that is empty or not UTF-8.  On
  a body whose request is within the limits and whose findings survive the wire format it gives the
  plugin's findings, or the plugin's error as a status error.  On a body of more than 4 MiB, or with
  hints that are not UTF-8, it gives an error and no finding, whatever the plugin would have found.
\<close>

theorem served_scanner_loads:
  assumes "connects_to g lib (start_of cfg) (ServeScanner impl)" "pcfgCommand cfg \<noteq> []" "holds_data g"
  shows "\<exists>sc. LoadScanner lib cfg h = (Inr sc, h\<lparr>hoNext := Suc (hoNext h), hoProcs := hoProcs h @ [hoNext h]\<rparr>)
    \<and> scName sc = (if scName impl = [] \<or> \<not> utf8_string (scName impl) then pcfgName cfg else scName impl)
    \<and> (\<forall>data hs. request_passes g data hs \<longrightarrow> findings_pass g (fst (scScan impl data hs)) \<longrightarrow>
         scScan sc data hs = (case scScan impl data hs of
            (fs, None) \<Rightarrow> (fs, None) | (fs, Some e) \<Rightarrow> ([], Some (gcHandlerStatus g e))))
    \<and> (\<forall>data hs. max_request < length data \<or> \<not> hints_utf8 (Some (HintsToProto hs)) \<longrightarrow>
         (\<exists>e. scScan sc data hs = ([], Some e)))"
  unfolding load_served [OF assms(1,2)] using remote_passes [of g _ _ impl] remote_refuses [OF assms(3)]
  by auto

text \<open>A library that runs the echo plugin for every command, and sizes that count the data.\<close>

definition plain_grpc :: grpc_lib where
  "plain_grpc = \<lparr>gcScanSize = (\<lambda>req. length (sqData req)), gcFindingsSize = (\<lambda>fs. length fs),
     gcRedactSize = (\<lambda>req. length (rqData req)),
     gcOutSize = length, gcStatus = (\<lambda>code. GoErr ''rpc error: code = %s'' [code]),
     gcHandlerStatus = (\<lambda>e. GoErr ''rpc error: code = Unknown'' [])\<rparr>"

definition echo_lib :: plugin_lib where
  "echo_lib = \<lparr>plConnect = (\<lambda>c. None),
     plDispense = (\<lambda>c kind. case HostPluginMap kind of
        None \<Rightarrow> Inl (GoErr ''unknown plugin type: %s'' [kind])
      | Some p \<Rightarrow> Inr (GRPCClient plain_grpc p (served_services (ServeScanner echoScanner))))\<rparr>"

lemma echo_connects: "connects_to plain_grpc echo_lib cmd (ServeScanner echoScanner)"
  by (simp add: connects_to_def echo_lib_def)

lemma echo_name_utf8: "utf8_string ''echo''" "utf8_string ''echo.token''" "utf8_string []"
  by (simp_all add: utf8_string_def str_def Valid_ascii)

lemma echo_scans:
  "scScan echoScanner data hs = (map echo_finding (filter (token_at data) [0..<length data]), None)"
  using echo_loop_finds [of 0 data "[]"] by (simp add: echoScanner_def)

lemma echo_passes:
  assumes "length data < 2 ^ 31" "gcFindingsSize g (map Some (FindingsToProto (fst (scScan echoScanner data hs)))) \<le> max_reply"
  shows "findings_pass g (fst (scScan echoScanner data hs))"
proof -
  have "crosses_wire f \<and> finding_utf8 (Some (FindingToProto f))"
    if f: "f \<in> set (fst (scScan echoScanner data hs))" for f
  proof -
    obtain j where "f = echo_finding j" "token_at data j"
      using f unfolding echo_scans by auto
    then show ?thesis
      using token_letters [of data j 0] assms(1) echo_name_utf8
      by (simp add: crosses_wire_def echo_finding_def fits_int32_def FindingToProto_def)
  qed
  then show ?thesis
    using assms(2) by (simp add: findings_pass_def list_all_iff)
qed

theorem served_scanner_loads_witness:
  "\<exists>sc h'. LoadScanner echo_lib (sample_config [''echoplugin'']) NewHost = (Inr sc, h') \<and> scName sc = ''echo''
    \<and> scScan sc needle \<lparr>hContentType = [], hURL = [], hMethod = [], hDirection = 0\<rparr> = ([echo_finding 0], None)
    \<and> (\<exists>e. scScan sc needle \<lparr>hContentType = [CHR 0xFF], hURL = [], hMethod = [], hDirection = 0\<rparr> = ([], Some e))"
proof -
  let ?hs = "\<lparr>hContentType = [], hURL = [], hMethod = [], hDirection = 0\<rparr>"
  let ?bad = "\<lparr>hContentType = [CHR 0xFF], hURL = [], hMethod = [], hDirection = 0\<rparr>"
  have echo: "scScan echoScanner needle ?hs = ([echo_finding 0], None)"
    unfolding echo_scans needle_bytes by code_simp
  have "\<not> utf8_string [CHR 0xFF]"
    by code_simp
  then have "\<not> hints_utf8 (Some (HintsToProto ?bad))"
    by (simp add: HintsToProto_def)
  moreover have "holds_data plain_grpc"
    by (simp add: holds_data_def plain_grpc_def)
  moreover have "request_passes plain_grpc needle ?hs"
    by (simp add: request_passes_def HintsToProto_def echo_name_utf8 plain_grpc_def max_request_def)
  moreover have "findings_pass plain_grpc (fst (scScan echoScanner needle ?hs))"
    by (rule echo_passes) (simp_all add: echo plain_grpc_def max_reply_def FindingsToProto_def)
  ultimately show ?thesis
    using served_scanner_loads [OF echo_connects, of "sample_config [''echoplugin'']" NewHost] echo
    by (auto simp: sample_config_def echoScanner_def echo_name_utf8)
qed

text \<open>
  The example plugin, loaded by the host, reports exactly the occurrences of its needle, in
  order, on every body whose request and findings are within the limits of gRPC.
\<close>

lemma echo_plugin_exact:
  assumes "connects_to g lib (start_of cfg) (ServeScanner echoScanner)" "pcfgCommand cfg \<noteq> []"
    and "holds_data g" "request_passes g data hs"
    and "gcFindingsSize g (map Some (FindingsToProto (fst (scScan echoScanner data hs)))) \<le> max_reply"
  shows "\<exists>sc h'. LoadScanner lib cfg h = (Inr sc, h') \<and> scName sc = ''echo''
    \<and> scScan sc data hs = (map echo_finding (filter (token_at data) [0..<length data]), None)"
proof -
  have "length data \<le> gcScanSize g \<lparr>sqData = data, sqHints = Some (HintsToProto hs)\<rparr>"
    using assms(3) unfolding holds_data_def by (metis scan_request.select_convs(1))
  then have "length data < 2 ^ 31"
    using assms(4) by (simp add: request_passes_def max_request_def)
  then show ?thesis
    unfolding load_served [OF assms(1,2)]
    using remote_passes [OF assms(4) echo_passes [OF _ assms(5)]] echo_name_utf8
    by (simp add: echo_scans) (simp add: echoScanner_def)
qed

text \<open>
  The kind is not checked when a plugin is loaded: a process that serves a redactor loads as a
  scanner, under the configured name, and every scan then fails.
\<close>

lemma wrong_kind_loads:
  assumes "connects_to g lib (start_of cfg) (ServeRedactor impl)" "pcfgCommand cfg \<noteq> []"
  shows "\<exists>sc h'. LoadScanner lib cfg h = (Inr sc, h') \<and> scName sc = pcfgName cfg
    \<and> (\<forall>data hs. \<exists>e. scScan sc data hs = ([], Some e))"
proof -
  have "dispense lib cfg KindScanner h =
      (Inr (GRPCClient g (ScannerPlugin None) (served_services (ServeRedactor impl))),
       h\<lparr>hoNext := Suc (hoNext h), hoProcs := hoProcs h @ [hoNext h]\<rparr>)"
    using assms by (intro dispense_connected kinds) (simp_all add: ServeRedactor_def)
  then show ?thesis
    by (simp add: LoadScanner_def ScannerPlugin_GRPCClient_def served_redactor rpc_Info_def rpc_Scan_def
        has_Info_def client_Info_def grpcScannerClient_Scan_def Let_def)
qed

end
