(* ===== verification/Spec2Isabelle.thy ===== *)
theory Spec2Isabelle
  imports Mask Evasion Streaming Registry Pii Sqli Secrets Code_Scanner Cert_Store Plugin_Host
    Config Proxy Cmd Root_CA Installer Ca_Cmd Connect Server Main_Run Plugin_Sdk
begin

text \<open>
  Verification of \<open>tg-proxy\<close>, a forward proxy that scans request and response bodies for personal
  data, secrets, SQL injection and source code, and masks what it finds.

  \<^bold>\<open>The program.\<close>  A configuration (\<open>src/internal/config\<close>) selects scanners and a redactor, built in
  or running as plugin processes (\<open>src/internal/plugin\<close>, \<open>src/pkg/plugin\<close>), which start-up
  (\<open>src/cmd/tg-proxy\<close>) hands to a pipeline (\<open>src/internal/pipeline\<close>).  The server
  (\<open>src/internal/proxy\<close>) reads a request body up to a limit, runs it through the pipeline, forwards
  the redacted body, and does the same with the response, whole or as a stream.  With interception
  on, CONNECT requests are terminated with leaf certificates from a signing store
  (\<open>src/internal/ca\<close>).

  \<^bold>\<open>The theories\<close>, from the bottom.
  \<^item> \<open>Prelude\<close>: bytes, Go errors (\<open>errors.Is\<close>, \<open>errors.Join\<close>), slices that panic, 64-bit wrap-around.
  \<^item> \<open>Api\<close>: \<open>src/pkg/api\<close>, the findings, hints, and the scanner and redactor interfaces, with the
    locale \<open>redactor_contract\<close> for what a client of a redactor relies on.
  \<^item> \<open>Mask\<close>: \<open>src/internal/redactor/mask\<close>.  \<open>mask_Redact\<close> is filter, sort, merge and rewrite with
    checked slices; it refines the byte-by-byte \<open>mask_spec\<close>.
  \<^item> \<open>Regex\<close>: Go's \<open>regexp\<close> for the operators the program uses, leftmost-first, over bytes decoded
    as UTF-8; the matcher is a terminating function, \<open>FindAllIndex\<close> enumerates disjoint matches in
    order, and completeness says that no match position is skipped.
  \<^item> \<open>Views\<close>, \<open>Decode\<close>, \<open>Normalize\<close>, \<open>Base64\<close>, \<open>Comment_Strip\<close>, \<open>Stitch\<close>: the rewritten views of a
    body and their offset tables, behind the locales \<open>offset_view\<close> and \<open>exact_view\<close>, interpreted on
    each of the six transforms.
  \<^item> \<open>Pipeline\<close>: \<open>pipeline.go\<close>.  \<open>ScanWith\<close> as the merge it returns and, by \<open>scan_step\<close>, as
    goroutines finishing in any order; \<open>Scan\<close> with its guarded passes; \<open>Process\<close>.  \<open>Evasion\<close> has the
    properties of the buffered pipeline.
  \<^item> \<open>Streaming\<close>: \<open>stream.go\<close>.  \<open>Pipe\<close> over a list of reads, with the buffer's length and capacity;
    its invariants are interpretations of the locale \<open>stream_invariant\<close>.
  \<^item> \<open>Registry\<close>: both registries, behind the locale \<open>registry\<close>.
  \<^item> \<open>Detect\<close>, \<open>Pii\<close>, \<open>Sqli\<close>, \<open>Secrets\<close>, \<open>Code_Scanner\<close>: the four rule tables and their scanners, all
    interpretations of \<open>typed_scanner\<close>, which extends \<open>detector_scanner\<close>; the Luhn check and the
    entropy test against references.
  \<^item> \<open>Go_Net\<close>, \<open>Cert_Store\<close>: host names and addresses of the Go library, and the leaf store, whose
    cache (a map into a linked list, as in the code) interprets the locale \<open>lru_cache\<close>.
  \<^item> \<open>Go_Os\<close>, \<open>Pem\<close>, \<open>Root_CA\<close>: paths and files of the Go library (a map from clean paths to nodes
    with modes, a umask, and calls that can fail), \<open>encoding/pem\<close>, and \<open>ca.go\<close> on top of them.
  \<^item> \<open>Installer\<close>: \<open>install.go\<close>, the four trust-store installers, as interpretations of the locales
    \<open>trust_operation\<close> and \<open>trust_installer\<close>.
  \<^item> \<open>Plugin_Conv\<close>, \<open>Plugin_Host\<close>, \<open>Plugin_Sdk\<close>: the wire format with its 32-bit offsets, the adapters,
    the host that owns the plugin processes, and the plugin side with its gRPC limits and the example
    plugin.
  \<^item> \<open>Config\<close>, \<open>Go_Http\<close>, \<open>Proxy\<close>: configuration, headers and readers of the Go library, and the HTTP
    handler.
  \<^item> \<open>Connect\<close>, \<open>Server\<close>: CONNECT with the connections it opens, the two copying goroutines of a
    tunnel and the states of the store under concurrent interceptions as transition systems, the
    dispatcher, and construction, start and shutdown of the server.
  \<^item> \<open>Go_Flag\<close>, \<open>Cmd\<close>, \<open>Ca_Cmd\<close>, \<open>Main_Run\<close>: flag parsing of the Go library, the building of
    scanners, redactor and store, the \<open>ca\<close> subcommands, and \<open>run\<close> and \<open>main\<close>.
  This theory holds the properties that span components.

  \<^bold>\<open>What is shown.\<close>  The redactor never panics, computes its reference and reveals nothing of what it
  covers.  Scans report every social security number with its offsets, follow text through every
  percent-encoding and through base64, stay within the body, are well typed, and do not depend on
  scheduling; together with the handlers and start-up this gives that the program as started without
  arguments forwards no such number.  A stream is redacted in consecutive segments, is piped to its
  end with its whole output, makes progress at its ceiling, and hands an occurrence that fits the
  window to the redactor whole when no finding of another range overlaps it.  The leaf cache is a
  bounded LRU list in every reachable state, and an intercepted client gets a leaf that names the
  host it asked for, issued by the root for the key it is served with, from an inner server that ends
  with its connection.  A blind tunnel delivers prefixes of what it reads and ends when the two sides
  end their streams; no CONNECT leaks a connection.  Bodies are never truncated silently below the
  largest limit, hop-by-hop headers are removed, plugin processes are all killed on every exit, a
  scanner served by a plugin acts as the scanner itself within the limits of gRPC, and what is served
  is what was configured.  A generated root can be loaded and intercepted with, nothing is overwritten
  without \<open>-force\<close>, installing on Linux makes the system trust the root and uninstalling takes that
  back, and uninstalling on macOS and Windows names the root that was generated.  Some properties and
  lemmas state where the code falls short: the end of a base64 match, overlapping findings at a stream
  boundary, the missing flush, expired leaves, the name of a redactor plugin, a cache that cannot be
  disabled, the mode of a key file that was there before, the mixed pair after a failed save, the
  bytes in the discarded reader of \<open>Hijack\<close>, and bodies that are too large for a plugin.

  \<^bold>\<open>Parameters.\<close>  Code outside the repository is an argument: the Unicode normaliser (\<open>nfkc\<close>),
  lower-casing beyond ASCII (\<open>uni\<close>), the YAML decoder, go-plugin and gRPC (\<open>plugin_lib\<close> and \<open>grpc_lib\<close>,
  described by \<open>connects_to\<close> and \<open>holds_data\<close>), key generation, the X.509 and PKCS#8 codecs
  (\<open>x509_lib\<close>, described by \<open>x509_documented\<close>, and \<open>ca_crypto\<close>, described by \<open>raw_law\<close>, \<open>key_law\<close> and
  \<open>name_law\<close>), the random source and the clock, the operating system's answers to file calls, the
  commands the installers run with what they do to the file system (\<open>update_documented\<close>), \<open>net/http\<close>'s
  client and server loops, dialling and hijacking with the bytes read ahead, what the two sides of a
  tunnel send and when they end their streams (\<open>source\<close>), the writer a stream goes to, and the growth of
  appended slices.  Where a property needs something of them it is a named hypothesis with a concrete
  instance in the witness.

  \<^bold>\<open>Loops and bounds.\<close>  Every operation is a total function or a transition relation whose steps are
  shown to end; no fuel is used.  Loops over slices are structural recursions, the others (the NFKC
  segments, the stitching scan, the eviction loop, \<open>intToStr\<close>, \<open>MkdirAll\<close>, \<open>pem.Decode\<close>,
  \<open>utf8.Valid\<close>, the example plugin's search) have termination proofs.  Offsets are unbounded integers except where the code
  narrows them (the 32-bit wire format) or computes near the limit (body limits and timeouts, at 64
  bits).  The copying steps of a tunnel end because a side sends finitely many bytes before it ends its
  stream or falls silent.  Entropy is computed over the reals, not in \<open>float64\<close>.

  \<^bold>\<open>Not modelled.\<close>  Log output and the log adapter of the plugin host, signal delivery, context
  cancellation inside handlers, the HTTP/2 configuration of the intercepting server and what it does
  with a connection handed to it, links and concurrent changes of the file system, paths on Windows,
  generated protobuf code, and mutexes (each critical section is one step).
\<close>

subsection \<open>From a request to the upstream\<close>

lemma Process_masked:
  assumes "plRedactor p = Some (mask_api m)"
  shows "resData (fst (pipeline_Process nfkc p data h)) =
    mask_spec (placeholder m) data (fst (pipeline_Scan nfkc p data h))"
proof -
  have "mask_spec (placeholder m) data [] = data"
    by (rule mask_spec_uncovered) (simp add: covered_iff)
  then show ?thesis
    using assms
    by (simp add: pipeline_Process_def mask_api_def mask_Redact_eq_spec split: prod.splits)
qed

lemma Scan_raw:
  assumes "data \<noteq> []" "s \<in> set (plScanners p)" "f \<in> set (fst (scScan s data h))"
  shows "f \<in> set (fst (pipeline_Scan nfkc p data h))"
proof -
  have raw: "f \<in> set (fst (ScanWith (plScanners p) data h))"
    using assms by (intro ScanWith_mem)
  have pass: "f \<in> set (fst (scan_pass p data h t r))" if "f \<in> set (fst r)" for t r
    using that mergeNew_keeps by (auto simp: fst_scan_pass)
  have "plScanners p \<noteq> []"
    using assms(2) by auto
  then show ?thesis
    using raw assms(1) unfolding pipeline_Scan_def Let_def by (simp add: pass)
qed

definition request_hints :: "request \<Rightarrow> hints" where
  "request_hints r = \<lparr>hContentType = header_Get (rqHeader r) ''Content-Type'', hURL = rqURL r,
     hMethod = rqMethod r, hDirection = DirectionRequest\<rparr>"

lemma forwarded_masked:
  assumes "fst (handleHTTP uni nfkc nw s r) = Some out"
    and "plRedactor (svPipeline s) = Some (mask_api m)"
  obtains body where "readBodyWithLimit (rqBody r) (svMaxBody s) = Inr body"
    "orBody out = mask_spec (placeholder m) body
       (fst (pipeline_Scan nfkc (svPipeline s) body (request_hints r)))"
    "orContentLength out = int (length (orBody out))"
  using handleHTTP_forwards [OF assms(1)] Process_masked [OF assms(2)] that
  by (metis forward_def out_request.select_convs(4,5) request_hints_def)

lemma ssn_covered:
  assumes "pii_New \<in> set (plScanners p)" "ssn_at body j" "j \<le> k" "k < j + 11"
  shows "covered (length body) (fst (pipeline_Scan nfkc p body h)) k"
proof -
  obtain f where f: "f \<in> set (fst (pii_Scan body h))" "fStart f = int j" "fEnd f = int (j + 11)"
    using ssn_finding [OF assms(2)] by blast
  have "body \<noteq> []"
    using f(1) by (auto simp: pii_Scan_def)
  then have "f \<in> set (fst (pipeline_Scan nfkc p body h))"
    using f(1) assms(1) by (intro Scan_raw [where s = pii_New]) (simp_all add: pii_New_def)
  moreover have "in_range (length body) f"
    using pii.scan_offsets f(1) unfolding offsets_ok_def by blast
  ultimately show ?thesis
    using f assms(3,4) by (auto simp: covered_iff)
qed

text \<open>What a server with the PII scanner and the mask redactor forwards.\<close>

definition ssn_hidden :: "bytes \<Rightarrow> bytes \<Rightarrow> bytes \<Rightarrow> bool" where
  "ssn_hidden ph body out \<longleftrightarrow>
     (\<exists>fs. out = concat (map (mask_byte ph body fs) [0..<length body]) \<and>
        (\<forall>j k. ssn_at body j \<longrightarrow> j \<le> k \<longrightarrow> k < j + 11 \<longrightarrow> mask_byte ph body fs k \<in> {ph, []}))"

lemma forwarded_hides_ssn:
  assumes "fst (handleHTTP uni nfkc nw s r) = Some out"
    and "plRedactor (svPipeline s) = Some (mask_api m)"
    and "pii_New \<in> set (plScanners (svPipeline s))"
  obtains body where "readBodyWithLimit (rqBody r) (svMaxBody s) = Inr body"
    "ssn_hidden (placeholder m) body (orBody out)" "orContentLength out = int (length (orBody out))"
proof -
  obtain body where b: "readBodyWithLimit (rqBody r) (svMaxBody s) = Inr body"
      "orBody out = mask_spec (placeholder m) body
         (fst (pipeline_Scan nfkc (svPipeline s) body (request_hints r)))"
      "orContentLength out = int (length (orBody out))"
    by (rule forwarded_masked [OF assms(1,2)])
  have "mask_byte (placeholder m) body (fst (pipeline_Scan nfkc (svPipeline s) body (request_hints r))) k
      \<in> {placeholder m, []}" if "ssn_at body j" "j \<le> k" "k < j + 11" for j k
    using ssn_covered [OF assms(3) that] by (simp add: mask_byte_def)
  then show ?thesis
    using b that unfolding mask_spec_def ssn_hidden_def by blast
qed

subsection \<open>Properties that span components\<close>

text \<open>A server with the PII scanner and the mask redactor, and a body with one number.\<close>

definition pii_server :: server where
  "pii_server = \<lparr>svPipeline = pipeline_New [pii_New] (Some (mask_api (mask_New ''*''))),
     svMaxBody = 64, svStreamWindow = 0, svCertStore = None\<rparr>"

definition ssn_body :: bytes where
  "ssn_body = [32, 49, 50, 51, 45, 52, 53, 45, 54, 55, 56, 57]"

lemma ssn_body_at: "ssn_at ssn_body 1"
  by code_simp

lemma sample_forwards:
  assumes "readBodyWithLimit (rqBody (sample_request body)) (svMaxBody s) = Inr body"
  shows "\<exists>out. fst (handleHTTP uni nfkc sample_network s (sample_request body)) = Some out"
  using assms by (simp add: handleHTTP_def sample_network_def sample_request_def Let_def)

lemma sample_read:
  "length body \<le> 64 \<Longrightarrow>
    readBodyWithLimit (rqBody (sample_request body)) (svMaxBody pii_server) = Inr body"
  using readBody_small [of 64 "\<lparr>rdrData = body, rdrErr = None, rdrWithLast = False\<rparr>"]
  by (simp add: sample_request_def pii_server_def)

lemma builtin_findings_within:
  assumes "set scs \<subseteq> set builtins"
    and "f \<in> set (fst (pipeline_Scan nfkc (pipeline_New scs red) data h))"
  shows "bounded_in (length data) f"
proof -
  have "bounded_in (length data) g" if "g \<in> set (fst (ScanWith scs data h))" for g
    using that assms(1) builtins_ok by (blast intro: in_range_within ScanWith_in_range)
  then have raw: "\<And>g. g \<in> set (fst (ScanWith (plScanners (pipeline_New scs red)) data h)) \<Longrightarrow>
      bounded_in (length data) g"
    by simp
  show ?thesis
    by (rule pipeline_Scan_within [OF raw assms(2)])
qed

lemma transformedPass_source:
  assumes "g \<in> set (fst (transformedPass p data h t))"
  shows "\<exists>x d idx. x \<in> set (fst (ScanWith (plTransformScanners p) d h)) \<and> g = map_finding idx x"
  using assms
  by (auto simp: transformedPass_def map_findings_def split: prod.splits option.splits if_splits) (metis fst_conv)+

lemma builtins_typed:
  assumes "s \<in> set builtins" "f \<in> set (fst (scScan s data h))"
  shows "typed_finding f \<and> fScanner f = scName s"
  using assms pii.scan_typed secrets.scan_typed sqli.scan_typed code_sc.scan_typed
  by (auto simp: builtins_def pii_New_def secrets_New_def sqli_New_def code_New_def)

text \<open>
  C13: Everything the built-in scanners report, in the raw body or in any transformed view of it,
  lies within the original body, so the redactor and the stream never index beyond it.
\<close>

theorem scan_offsets_in_body:
  assumes "set scs \<subseteq> set builtins"
    and "f \<in> set (fst (pipeline_Scan nfkc (pipeline_New scs red) data h))"
  shows "0 \<le> fStart f \<and> fStart f \<le> fEnd f \<and> fEnd f \<le> int (length data)"
  using builtin_findings_within [OF assms] by (simp add: bounded_in_def)

theorem scan_offsets_in_body_witness:
  "\<exists>f\<in>set (fst (pipeline_Scan id (pipeline_New [pii_New] None) ssn_body no_hints)).
     0 \<le> fStart f \<and> fStart f \<le> fEnd f \<and> fEnd f \<le> int (length ssn_body)"
proof -
  obtain f where "f \<in> set (fst (scScan pii_New ssn_body no_hints))"
    using ssn_finding [OF ssn_body_at, of no_hints] unfolding pii_New_def by auto
  moreover have "ssn_body \<noteq> []" "pii_New \<in> set (plScanners (pipeline_New [pii_New] None))"
    by (simp_all add: ssn_body_def)
  ultimately have f: "f \<in> set (fst (pipeline_Scan id (pipeline_New [pii_New] None) ssn_body no_hints))"
    by (intro Scan_raw)
  have "set [pii_New] \<subseteq> set builtins"
    by (simp add: builtins_def)
  from scan_offsets_in_body [OF this f] show ?thesis
    using f by blast
qed

text \<open>
  C11: A buffered response is scanned as a whole before any of it is sent: when the handler answers
  with a buffered reply, the upstream answered the forwarded request, its body was read completely
  within the limit, the reply carries the upstream's status and the masked body, and its
  Content-Length is the length of the masked body.
\<close>

theorem buffered_reply_masked:
  assumes "handleHTTP uni nfkc nw s r = (sent, Reply status hdr body)"
    and "plRedactor (svPipeline s) = Some (mask_api m)"
  shows "\<exists>out resp raw h. sent = Some out \<and> nwDo nw out = Inr resp \<and> status = rsStatus resp
    \<and> readBodyWithLimit (Some (rsBody resp)) (svMaxBody s) = Inr raw
    \<and> body = mask_spec (placeholder m) raw (fst (pipeline_Scan nfkc (svPipeline s) raw h))
    \<and> map_of hdr ''Content-Length'' = Some [itoa (length body)]"
proof -
  have cl: "CanonicalHeaderKey ''Content-Length'' = ''Content-Length''"
    by code_simp
  show ?thesis
    using assms(1) unfolding handleHTTP_def Let_def
    by (auto simp: replyError_def streamResponse_def respond_def Process_masked [OF assms(2)]
        map_of_header_Set cl Let_def split: if_splits sum.splits option.splits)
qed

definition ok_response :: "bytes \<Rightarrow> response" where
  "ok_response body = \<lparr>rsStatus = 200, rsHeader = [], rsContentLength = int (length body),
     rsTransferEncoding = [], rsBody = \<lparr>rdrData = body, rdrErr = None, rdrWithLast = False\<rparr>,
     rsTurns = []\<rparr>"

definition ok_network :: "bytes \<Rightarrow> network" where
  "ok_network body = sample_network\<lparr>nwDo := (\<lambda>out. Inr (ok_response body))\<rparr>"

lemma ok_network_replies:
  assumes "length body \<le> 64"
  shows "\<exists>sent hdr out. handleHTTP id id (ok_network body) pii_server (sample_request body) =
    (sent, Reply 200 hdr out)"
proof -
  have "\<not> isStreamableResponse id (ok_response body)"
    by (simp add: isStreamableResponse_def ok_response_def header_Get_def header_values_def
        ToLower_def HasPrefix_def is_ascii_def)
  moreover have "readBodyWithLimit (Some (rsBody (ok_response body))) (svMaxBody pii_server) = Inr body"
    using sample_read [OF assms] by (simp add: ok_response_def sample_request_def)
  ultimately show ?thesis
    using sample_read [OF assms]
    by (simp add: handleHTTP_def ok_network_def sample_network_def Let_def respond_def)
      (simp add: sample_request_def ok_response_def)
qed

theorem buffered_reply_masked_witness:
  "\<exists>sent hdr out fs. handleHTTP id id (ok_network ssn_body) pii_server (sample_request ssn_body) =
      (sent, Reply 200 hdr out)
    \<and> out = mask_spec (placeholder (mask_New ''*'')) ssn_body fs
    \<and> map_of hdr ''Content-Length'' = Some [itoa (length out)]"
proof -
  have len: "length ssn_body \<le> 64"
    by (simp add: ssn_body_def)
  obtain sent hdr out
    where reply: "handleHTTP id id (ok_network ssn_body) pii_server (sample_request ssn_body) =
      (sent, Reply 200 hdr out)"
    using ok_network_replies [OF len] by blast
  have "plRedactor (svPipeline pii_server) = Some (mask_api (mask_New ''*''))"
    by (simp add: pii_server_def)
  moreover have "readBodyWithLimit (Some (rsBody (ok_response ssn_body))) (svMaxBody pii_server) = Inr ssn_body"
    using sample_read [OF len] by (simp add: ok_response_def sample_request_def)
  ultimately have "\<exists>h. out = mask_spec (placeholder (mask_New ''*'')) ssn_body
      (fst (pipeline_Scan id (svPipeline pii_server) ssn_body h))
      \<and> map_of hdr ''Content-Length'' = Some [itoa (length out)]"
    using buffered_reply_masked [OF reply, of "mask_New ''*''"] by (auto simp: ok_network_def)
  then show ?thesis
    using reply by blast
qed

text \<open>
  C1: Out of the box the proxy hides social security numbers.  Started without arguments the program
  always gets as far as serving, and whatever that server forwards for a request, through its
  dispatcher, is the masking of a body it read completely within ten megabytes, in which every byte
  of every social security number is replaced by the default placeholder or dropped.
\<close>

theorem default_proxy_hides_ssn:
  "\<exists>srv. rrServed (run re []) = Some srv \<and>
    (\<forall>r out rep s'. ServeHTTP uni nfkc senv nw env r cr (handler_of srv) = (ServedHTTP (Some out) rep, s') \<longrightarrow>
      (\<exists>body. readBodyWithLimit (rqBody r) (10 * 1024 * 1024) = Inr body
         \<and> ssn_hidden (str ''[REDACTED]'') body (orBody out)))"
proof -
  obtain lg where lg: "rrServed (run re []) = Some (proxy_New (reSlogDefault re) (default_server lg))"
    by (rule default_run)
  let ?s = "handler_of (proxy_New (reSlogDefault re) (default_server lg))"
  have s: "?s = \<lparr>svPipeline = pipeline_New [pii_New, secrets_New] (Some (mask_api (mask_New ''[REDACTED]''))),
      svMaxBody = 10 * 1024 * 1024, svStreamWindow = 4096, svCertStore = None\<rparr>"
    unfolding New_handler by (simp add: default_server_def server_options_def Default_def)
  have ph: "placeholder (mask_New ''[REDACTED]'') = str ''[REDACTED]''"
    by (simp add: mask_New_def)
  have "\<exists>body. readBodyWithLimit (rqBody r) (10 * 1024 * 1024) = Inr body
      \<and> ssn_hidden (str ''[REDACTED]'') body (orBody out)"
    if "ServeHTTP uni nfkc senv nw env r cr ?s = (ServedHTTP (Some out) rep, s')" for r out rep s'
  proof -
    have "fst (handleHTTP uni nfkc nw ?s r) = Some out"
      using that by (auto simp: ServeHTTP_def split: if_splits prod.splits option.splits)
    then show ?thesis
      by (rule forwarded_hides_ssn [where m = "mask_New ''[REDACTED]''"]) (auto simp: s ph)
  qed
  then show ?thesis
    using lg by blast
qed

theorem default_proxy_hides_ssn_witness:
  "\<exists>srv out rep s' body. rrServed (run toy_run []) = Some srv
    \<and> ServeHTTP id id (sample_env 0) sample_network open_env (sample_request ssn_body) \<lparr>cqURLHost = [], cqHost = []\<rparr>
        (handler_of srv) = (ServedHTTP (Some out) rep, s')
    \<and> ssn_hidden (str ''[REDACTED]'') body (orBody out) \<and> body = ssn_body"
proof -
  obtain srv where srv: "rrServed (run toy_run []) = Some srv"
      and hides: "\<And>r out rep s'. ServeHTTP id id (sample_env 0) sample_network open_env r \<lparr>cqURLHost = [], cqHost = []\<rparr>
        (handler_of srv) = (ServedHTTP (Some out) rep, s') \<Longrightarrow>
        (\<exists>body. readBodyWithLimit (rqBody r) (10 * 1024 * 1024) = Inr body
           \<and> ssn_hidden (str ''[REDACTED]'') body (orBody out))"
    using default_proxy_hides_ssn [of toy_run id id "sample_env 0" sample_network open_env "\<lparr>cqURLHost = [], cqHost = []\<rparr>"]
    by auto
  have read: "readBodyWithLimit (rqBody (sample_request ssn_body)) (10 * 1024 * 1024) = Inr ssn_body"
    using readBody_small [of "10 * 1024 * 1024" "\<lparr>rdrData = ssn_body, rdrErr = None, rdrWithLast = False\<rparr>"]
    by (simp add: sample_request_def ssn_body_def)
  obtain lg where "rrServed (run toy_run []) = Some (proxy_New (reSlogDefault toy_run) (default_server lg))"
    by (rule default_run)
  then have "svMaxBody (handler_of srv) = 10 * 1024 * 1024"
    using srv by (simp add: New_handler default_server_def server_options_def Default_def)
  then obtain out where "fst (handleHTTP id id sample_network (handler_of srv) (sample_request ssn_body)) = Some out"
    using sample_forwards [of ssn_body "handler_of srv"] read by auto
  then obtain rep where "handleHTTP id id sample_network (handler_of srv) (sample_request ssn_body) = (Some out, rep)"
    by (metis prod.collapse)
  moreover have "rqMethod (sample_request ssn_body) \<noteq> ''CONNECT''"
    by (simp add: sample_request_def)
  ultimately obtain s' where serve: "ServeHTTP id id (sample_env 0) sample_network open_env (sample_request ssn_body)
      \<lparr>cqURLHost = [], cqHost = []\<rparr> (handler_of srv) = (ServedHTTP (Some out) rep, s')"
    by (simp add: ServeHTTP_def)
  then show ?thesis
    using hides [OF serve] read srv by auto
qed

text \<open>
  C14: The findings of the built-in scanners are well typed, in the body and in every view of it: the
  severity is one of the five levels and survives printing and parsing, the confidence is a positive
  fraction, type and scanner are named, and a finding in a body below two gigabytes reaches a plugin
  redactor unchanged.
\<close>

theorem builtin_findings_typed:
  assumes "set scs \<subseteq> set builtins" "f \<in> set (fst (pipeline_Scan nfkc (pipeline_New scs red) data h))"
    and "length data < 2 ^ 31"
  shows "ParseSeverity (Severity_String (fSeverity f)) = Inr (fSeverity f) \<and> 0 < fConfidence f \<and> fConfidence f \<le> 1
    \<and> fType f \<noteq> [] \<and> fScanner f \<in> scName ` set scs \<and> FindingFromProto (Some (FindingToProto f)) = f"
proof -
  let ?p = "pipeline_New scs red"
  let ?typed = "\<lambda>f. typed_finding f \<and> fScanner f \<in> scName ` set scs"
  have scan: "?typed g" if "g \<in> set (fst (ScanWith sub d h))" "set sub \<subseteq> set scs" for g sub d
    using that assms(1) builtins_typed by (fastforce simp: ScanWith_def split: if_splits)
  have pass: "?typed g" if g: "g \<in> set (fst (transformedPass ?p data h t))" for g t
  proof -
    obtain x d idx where x: "x \<in> set (fst (ScanWith (plTransformScanners ?p) d h))" "g = map_finding idx x"
      using transformedPass_source [OF g] by blast
    have "?typed x"
      by (rule scan [OF x(1)]) (auto simp: pipeline_New_def)
    then show ?thesis
      by (simp add: x(2) map_finding_def typed_finding_def)
  qed
  have "\<forall>g\<in>set (fst (pipeline_Scan nfkc ?p data h)). ?typed g"
  proof (rule pipeline_Scan_induct)
    fix t and r :: "finding list \<times> go_error option"
    assume r: "\<forall>g\<in>set (fst r). ?typed g"
    show "\<forall>g\<in>set (fst (scan_pass ?p data h t r)). ?typed g"
      using r mergeNew_set [of "fst r"] pass by (fastforce simp: fst_scan_pass)
  qed (use scan [of _ scs] in auto)
  then have f: "typed_finding f" "fScanner f \<in> scName ` set scs"
    using assms(2) by blast+
  have "bounded_in (length data) f"
    by (rule builtin_findings_within [OF assms(1,2)])
  then have "crosses_wire f"
    using f(1) assms(3) by (simp add: crosses_wire_def fits_int32_def bounded_in_def typed_finding_def)
  then show ?thesis
    using f by (simp add: typed_finding_def Finding_round_iff ParseSeverity_String)
qed

theorem builtin_findings_typed_witness:
  "\<exists>f\<in>set (fst (pipeline_Scan id (pipeline_New [pii_New] None) ssn_body no_hints)).
     ParseSeverity (Severity_String (fSeverity f)) = Inr (fSeverity f) \<and> fScanner f = ''pii''"
proof -
  obtain f where "f \<in> set (fst (scScan pii_New ssn_body no_hints))"
    using ssn_finding [OF ssn_body_at, of no_hints] unfolding pii_New_def by auto
  moreover have "ssn_body \<noteq> []" "pii_New \<in> set (plScanners (pipeline_New [pii_New] None))"
    by (simp_all add: ssn_body_def)
  ultimately have f: "f \<in> set (fst (pipeline_Scan id (pipeline_New [pii_New] None) ssn_body no_hints))"
    by (intro Scan_raw)
  have "set [pii_New] \<subseteq> set builtins" "length ssn_body < 2 ^ 31"
    by (simp_all add: builtins_def ssn_body_def)
  from builtin_findings_typed [OF this(1) f this(2)] show ?thesis
    using f by (auto simp: pii_New_def pii_Name_def)
qed

text \<open>
  C5: A configuration with the PII scanner protects plain and intercepted requests.  When the program
  serves a configuration file in which the built-in PII scanner is enabled and no plugin redactor is
  named, whatever else is enabled, then every body it forwards, for a request to the proxy or for
  one inside an intercepted TLS connection, is the masking of a body read completely within the
  configured limit, with every byte of every social security number replaced by the configured
  placeholder or dropped.
\<close>

theorem configured_proxy_hides_ssn:
  assumes "rrServed (run re [''-config'', path]) = Some srv" "loadConfig re path = Inr cfg"
    and "sc \<in> set (cfScanners cfg)" "scfEnabled sc" "scfExternal sc = None" "scfName sc = ''pii''"
    and "rcExternal (cfRedactor cfg) = None"
    and "fst (handleHTTP uni nfkc nw (handler_of srv) r) = Some out \<or>
      fst (mitm_handler uni nfkc nw (handler_of srv) host p r) = Some out"
  shows "\<exists>body. readBodyWithLimit (rqBody r) (lmMaxBodySize (cfLimits cfg)) = Inr body
    \<and> ssn_hidden (placeholder (mask_New (config_placeholder cfg))) body (orBody out)
    \<and> orContentLength out = int (length (orBody out))"
proof -
  obtain fs where fs: "flag_Parse run_flags [''-config'', path] = Inr (fs, [])" "flag_string fs ''config'' = path"
      "\<not> flag_bool fs ''version''"
    by (rule parse_config)
  obtain fs' rest cfg' lg where r: "flag_Parse run_flags [''-config'', path] = Inr (fs', rest)"
      "loadConfig re (flag_string fs' ''config'') = Inr cfg'" "snd (fst (run_host re cfg' lg NewHost)) = Some srv"
    by (rule run_served_cases [OF assms(1)])
  then have served: "snd (fst (run_host re cfg lg NewHost)) = Some srv"
    using fs assms(2) by (simp del: flag_Parse.simps)
  obtain scs red cs where s: "fst (buildScanners (reLib re) cfg NewHost) = Inr scs"
      "srv = proxy_New (reSlogDefault re) (server_options cfg lg scs red cs)"
      "\<exists>h1. fst (buildRedactor (reLib re) cfg h1) = Inr red"
    by (rule run_host_serves [OF served])
  have "pii_New \<in> set scs"
    using buildScanners_has [OF _ assms(3-6)] s(1) by (metis prod.collapse)
  moreover have "red = mask_api (mask_New (config_placeholder cfg))"
    using buildRedactor_mask assms(7) s(3) by blast
  moreover have "0 < lmMaxBodySize (cfLimits cfg)"
    using Validate_accepts(2) [OF loadConfig_valid [OF assms(2)]] .
  ultimately have h: "plRedactor (svPipeline (handler_of srv)) = Some (mask_api (mask_New (config_placeholder cfg)))"
      "pii_New \<in> set (plScanners (svPipeline (handler_of srv)))"
      "svMaxBody (handler_of srv) = lmMaxBodySize (cfLimits cfg)"
    unfolding s(2) New_handler by (simp_all add: server_options_def)
  have "\<exists>r'. fst (handleHTTP uni nfkc nw (handler_of srv) r') = Some out \<and> rqBody r' = rqBody r"
    using assms(8) by (auto simp: mitm_handler_def promote_def)
  then obtain r' where r': "fst (handleHTTP uni nfkc nw (handler_of srv) r') = Some out" "rqBody r' = rqBody r"
    by blast
  show ?thesis
    by (rule forwarded_hides_ssn [OF r'(1) h(1,2)]) (simp add: h(3) r'(2))
qed

definition file_run :: run_env where
  "file_run = toy_run\<lparr>reFs := [''.'' \<mapsto> DirNode 493, ''c'' \<mapsto> FileNode 420 []]\<rparr>"

lemma file_config: "loadConfig file_run ''c'' = Inr Default"
  by (simp add: loadConfig_def Load_def ReadFile_def file_run_def toy_run_def quiet_env_def toy_paths Default_valid)

theorem configured_proxy_hides_ssn_witness:
  "\<exists>srv out. rrServed (run file_run [''-config'', ''c'']) = Some srv
    \<and> fst (mitm_handler id id sample_network (handler_of srv) ''h'' ''/'' (sample_request ssn_body)) = Some out
    \<and> ssn_hidden (placeholder (mask_New ''[REDACTED]'')) ssn_body (orBody out)"
proof -
  obtain fs where "flag_Parse run_flags [''-config'', ''c''] = Inr (fs, [])" "flag_string fs ''config'' = ''c''"
      "\<not> flag_bool fs ''version''"
    by (rule parse_config)
  then obtain lg where srv: "rrServed (run file_run [''-config'', ''c'']) =
      Some (proxy_New (reSlogDefault file_run) (default_server lg))"
    using run_default_config [of "[''-config'', ''c'']" fs "[]" file_run] file_config by auto
  let ?s = "handler_of (proxy_New (reSlogDefault file_run) (default_server lg))"
  have read: "readBodyWithLimit (rqBody (sample_request ssn_body)) (10 * 1024 * 1024) = Inr ssn_body"
    using readBody_small [of "10 * 1024 * 1024" "\<lparr>rdrData = ssn_body, rdrErr = None, rdrWithLast = False\<rparr>"]
    by (simp add: sample_request_def ssn_body_def)
  have "svMaxBody ?s = 10 * 1024 * 1024"
    by (simp add: New_handler default_server_def server_options_def Default_def)
  then have "\<exists>out. fst (mitm_handler id id sample_network ?s ''h'' ''/'' (sample_request ssn_body)) = Some out"
    using read by (simp add: mitm_handler_def handleHTTP_def promote_def sample_network_def Let_def)
  then obtain out where out: "fst (mitm_handler id id sample_network ?s ''h'' ''/'' (sample_request ssn_body)) = Some out"
    by blast
  let ?sc = "\<lparr>scfName = ''pii'', scfEnabled = True, scfExternal = None\<rparr>"
  have "?sc \<in> set (cfScanners Default)" "rcExternal (cfRedactor Default) = None"
      "lmMaxBodySize (cfLimits Default) = 10 * 1024 * 1024" "config_placeholder Default = ''[REDACTED]''"
    by (simp_all add: Default_def config_placeholder_def)
  then show ?thesis
    using configured_proxy_hides_ssn [OF srv file_config, of ?sc id id sample_network "sample_request ssn_body" out "''h''" "''/''"]
      out srv read by auto
qed

text \<open>
  C29: A plugin redactor does not redact large bodies.  Load a redactor that a plugin process serves
  with the SDK, and give it to a server.  A request body of more than 4 MiB that is within the server's
  own limit (ten megabytes by default) is forwarded as it came, whatever the scanners find in it: the
  call to the plugin exceeds the message size a gRPC server takes by default, \<open>Process\<close> returns the
  original data with the error, and the handler forwards it.
\<close>

theorem large_body_skips_plugin_redactor:
  assumes "connects_to g lib (start_of cfg) (ServeRedactor impl)" "holds_data g"
    and "LoadRedactor lib cfg h = (Inr red, h')" "plRedactor (svPipeline s) = Some red"
    and "rqIsAbs r" "rqBody r = Some rd" "rdrErr rd = None" "nwNewRequest nw (rqMethod r) (rqURL r) = None"
    and "0 < svMaxBody s" "svMaxBody s < 2 ^ 63 - 1"
    and "max_request < length (rdrData rd)" "int (length (rdrData rd)) \<le> svMaxBody s"
  shows "\<exists>out. fst (handleHTTP uni nfkc nw s r) = Some out \<and> orBody out = rdrData rd"
proof -
  have red: "rdRedact red = grpcRedactorClient_Redact (rpc_Redact g (served_services (ServeRedactor impl)))"
    by (rule load_served_redactor [OF assms(1) _ assms(3)]) (simp add: ServeRedactor_def)
  have "\<exists>e. rdRedact red (rdrData rd) fs = Inl e" for fs
    unfolding red by (rule remote_redact_refuses [OF assms(2,11)])
  then have "resData (fst (pipeline_Process nfkc (svPipeline s) (rdrData rd) hs)) = rdrData rd" for hs
    by (auto simp: pipeline_Process_def assms(4) split: prod.split sum.split) (metis Inl_not_Inr)
  moreover have "readBodyWithLimit (rqBody r) (svMaxBody s) = Inr (rdrData rd)"
    using readBody_small [OF assms(9,10,12)] assms(6,7) by simp
  ultimately show ?thesis
    using assms(5,8) by (auto simp: handleHTTP_def Let_def forward_def split: sum.split)
qed

text \<open>The mask redactor served by a plugin, and a body of one byte too many.\<close>

definition mask_lib :: plugin_lib where
  "mask_lib = \<lparr>plConnect = (\<lambda>c. None),
     plDispense = (\<lambda>c kind. case HostPluginMap kind of
        None \<Rightarrow> Inl (GoErr ''unknown plugin type: %s'' [kind])
      | Some p \<Rightarrow> Inr (GRPCClient plain_grpc p (served_services (ServeRedactor (mask_api (mask_New ''*''))))))\<rparr>"

definition large_body :: bytes where
  "large_body = replicate 4194305 49"

theorem large_body_skips_plugin_redactor_witness:
  "\<exists>red h' out. LoadRedactor mask_lib (sample_config [''mask'']) NewHost = (Inr red, h')
    \<and> fst (handleHTTP id id sample_network
         (pii_server\<lparr>svPipeline := pipeline_New builtins (Some red), svMaxBody := 10 * 1024 * 1024\<rparr>)
         (sample_request large_body)) = Some out
    \<and> orBody out = large_body"
proof -
  have conn: "connects_to plain_grpc mask_lib cmd (ServeRedactor (mask_api (mask_New ''*'')))" for cmd
    by (simp add: connects_to_def mask_lib_def)
  have data: "holds_data plain_grpc"
    by (simp add: holds_data_def plain_grpc_def)
  obtain red h' where red: "LoadRedactor mask_lib (sample_config [''mask'']) NewHost = (Inr red, h')"
    using dispense_connected [OF conn, of "sample_config [''mask'']" KindRedactor "RedactorPlugin None" NewHost] kinds(2)
    by (auto simp: LoadRedactor_def ServeRedactor_def sample_config_def RedactorPlugin_GRPCClient_def Let_def)
  let ?s = "pii_server\<lparr>svPipeline := pipeline_New builtins (Some red), svMaxBody := 10 * 1024 * 1024\<rparr>"
  have "\<exists>out. fst (handleHTTP id id sample_network ?s (sample_request large_body)) = Some out
      \<and> orBody out = rdrData \<lparr>rdrData = large_body, rdrErr = None, rdrWithLast = False\<rparr>"
    by (rule large_body_skips_plugin_redactor [OF conn data red])
      (simp_all add: sample_request_def sample_network_def large_body_def max_request_def)
  then show ?thesis
    using red by auto
qed

end
